theory Spec2Isabelle
  imports Main
begin

section \<open>Data model\<close>

text \<open>
  The \<open>Contact\<close> table as the handler of \<open>POST /identify\<close> reads and writes it.
  Identifiers and timestamps are natural numbers, optional columns are \<open>option\<close>
  values (\<open>None\<close> is SQL \<open>null\<close>).
\<close>

datatype precedence = Primary | Secondary

record contact =
  id_c :: nat
  email :: "string option"
  phoneNumber :: "string option"
  linkedId :: "nat option"
  linkPrecedence :: precedence
  createdAt :: nat
  deletedAt :: "nat option"

text \<open>
  The store is the table, in the order in which the database holds its rows, and the
  counter of the auto-incremented identifier.
\<close>

record store =
  rows :: "contact list"
  nextId :: nat

text \<open>A request that fails is answered with status 400 or with status 500.\<close>

datatype error = BadRequest | InternalError

record response =
  primaryContatctId :: nat
  emails :: "string list"
  phoneNumbers :: "string list"
  secondaryContactIds :: "nat list"

record request =
  req_email :: "string option"
  req_phoneNumber :: "string option"

section \<open>JavaScript truthiness of an optional string\<close>

text \<open>\<open>!v\<close> holds for \<open>undefined\<close>, \<open>null\<close> and the empty string.\<close>

definition truthy :: "string option \<Rightarrow> bool" where
  "truthy v = (case v of None \<Rightarrow> False | Some t \<Rightarrow> t \<noteq> [])"

text \<open>\<open>v || null\<close>\<close>

definition or_null :: "string option \<Rightarrow> string option" where
  "or_null v = (if truthy v then v else None)"

section \<open>The storage interface\<close>

text \<open>
  \<open>findMany\<close> with \<open>orderBy: { createdAt: "asc" }\<close>: the rows that satisfy the
  \<open>where\<close> clause, sorted by \<open>createdAt\<close> alone. The query names no second sort key, so
  rows of equal \<open>createdAt\<close> come back in the order of the table (the sort is stable).
\<close>

definition findMany :: "(contact \<Rightarrow> bool) \<Rightarrow> store \<Rightarrow> contact list" where
  "findMany wh s = sort_key createdAt (filter wh (rows s))"

text \<open>\<open>updateMany\<close>: every row that satisfies the \<open>where\<close> clause gets the new data.\<close>

definition updateMany :: "(contact \<Rightarrow> bool) \<Rightarrow> (contact \<Rightarrow> contact) \<Rightarrow> store \<Rightarrow> store" where
  "updateMany wh upd s = s\<lparr>rows := map (\<lambda>c. if wh c then upd c else c) (rows s)\<rparr>"

text \<open>
  Modelled from the spec: \<open>prisma.contact.create\<close> depends on \<open>prisma/schema.prisma\<close>,
  which is missing here. The spec has \<open>create(Contact fields) -> Contact\<close> assign the
  \<open>id\<close> (unique, monotonically assigned) and \<open>createdAt\<close>; columns that the caller does
  not give are null. The time of the insertion is the argument \<open>now\<close>.
\<close>

definition create ::
  "nat \<Rightarrow> string option \<Rightarrow> string option \<Rightarrow> nat option \<Rightarrow> precedence \<Rightarrow> store
    \<Rightarrow> contact \<times> store" where
  "create now e p l prec s =
     (let c = \<lparr>id_c = nextId s, email = e, phoneNumber = p, linkedId = l,
                linkPrecedence = prec, createdAt = now, deletedAt = None\<rparr>
      in (c, \<lparr>rows = rows s @ [c], nextId = Suc (nextId s)\<rparr>))"

section \<open>The handler of \<open>POST /identify\<close>, stage by stage\<close>

text \<open>
  The handler of \<open>src/routes/identify.ts\<close>, block by block in the order of the source.
  This section is the request that the store serves to the end: every \<open>await\<close> returns.
  The handler's own failures (a read of \<open>undefined\<close>) end the request with status 500.
  The next section is the same handler with a call of the store that throws.
\<close>

subsection \<open>Step 1: the matching contacts\<close>

text \<open>
  A condition is pushed for a field only when the field is truthy; the \<open>where\<close> clause
  is the disjunction of the conditions, and \<open>deletedAt: null\<close>.
\<close>

definition matches :: "string option \<Rightarrow> string option \<Rightarrow> contact \<Rightarrow> bool" where
  "matches e p c =
     (((truthy e \<and> email c = e) \<or> (truthy p \<and> phoneNumber c = p)) \<and> deletedAt c = None)"

definition matchingContacts :: "string option \<Rightarrow> string option \<Rightarrow> store \<Rightarrow> contact list" where
  "matchingContacts e p s = findMany (matches e p) s"

subsection \<open>Step 2: the set of primary ids\<close>

text \<open>A JavaScript \<open>Set\<close> keeps its elements in insertion order.\<close>

definition set_add :: "nat \<Rightarrow> nat list \<Rightarrow> nat list" where
  "set_add x acc = (if x \<in> set acc then acc else acc @ [x])"

fun collect_primaryIds :: "contact list \<Rightarrow> nat list \<Rightarrow> nat list" where
  "collect_primaryIds [] acc = acc"
| "collect_primaryIds (c # cs) acc =
     collect_primaryIds cs
       (if linkPrecedence c = Primary then set_add (id_c c) acc
        else (case linkedId c of Some l \<Rightarrow> set_add l acc | None \<Rightarrow> acc))"

definition primaryIds :: "contact list \<Rightarrow> nat list" where
  "primaryIds ms = collect_primaryIds ms []"

subsection \<open>Scenario 3: the merge of several primaries\<close>

definition in_ids :: "nat list \<Rightarrow> nat option \<Rightarrow> bool" where
  "in_ids ids l = (case l of None \<Rightarrow> False | Some i \<Rightarrow> i \<in> set ids)"

text \<open>\<open>where: { id: { in: otherPrimaryIds } }\<close>, data \<open>linkedId, linkPrecedence\<close>.\<close>

definition demote :: "nat \<Rightarrow> nat list \<Rightarrow> store \<Rightarrow> store" where
  "demote root others s =
     updateMany (\<lambda>c. id_c c \<in> set others)
       (\<lambda>c. c\<lparr>linkedId := Some root, linkPrecedence := Secondary\<rparr>) s"

text \<open>\<open>where: { linkedId: { in: otherPrimaryIds } }\<close>, data \<open>linkedId\<close>.\<close>

definition relink :: "nat \<Rightarrow> nat list \<Rightarrow> store \<Rightarrow> store" where
  "relink root others s =
     updateMany (\<lambda>c. in_ids others (linkedId c)) (\<lambda>c. c\<lparr>linkedId := Some root\<rparr>) s"

text \<open>
  The fetch of the primaries has no \<open>deletedAt\<close> filter. \<open>primaries[0]\<close> of an empty
  result is \<open>undefined\<close>, and reading its \<open>id\<close> throws: the request ends with status 500.
\<close>

definition fetch_primaries :: "nat list \<Rightarrow> store \<Rightarrow> contact list" where
  "fetch_primaries pids s = findMany (\<lambda>c. id_c c \<in> set pids) s"

text \<open>
  The merge when the store serves both writes (\<open>merger_with\<close> below is the merge with a
  call that throws). The branch for a single primary reads \<open>Array.from(primaryIds)[0]\<close>.
  The handler has returned before when the set is empty, so the last case below is never
  reached from it.
\<close>

definition merger :: "nat list \<Rightarrow> store \<Rightarrow> error + (nat \<times> store)" where
  "merger pids s =
     (if length pids > 1 then
        (case fetch_primaries pids s of
           [] \<Rightarrow> Inl InternalError
         | oldestPrimary # rest \<Rightarrow>
             (let rootPrimaryId = id_c oldestPrimary;
                  otherPrimaryIds = map id_c rest
              in Inr (rootPrimaryId,
                      relink rootPrimaryId otherPrimaryIds
                        (demote rootPrimaryId otherPrimaryIds s))))
      else (case pids of
              only # _ \<Rightarrow> Inr (only, s)
            | [] \<Rightarrow> Inl InternalError))"

subsection \<open>Step 3 and scenario 2: the cluster and its extension\<close>

definition fetch_cluster :: "nat \<Rightarrow> store \<Rightarrow> contact list" where
  "fetch_cluster root s =
     findMany (\<lambda>c. (id_c c = root \<or> linkedId c = Some root) \<and> deletedAt c = None) s"

text \<open>\<open>new Set(cluster.map(...).filter(Boolean))\<close> and \<open>has\<close>.\<close>

definition existingEmails :: "contact list \<Rightarrow> string option set" where
  "existingEmails cluster = set (filter truthy (map email cluster))"

definition existingPhones :: "contact list \<Rightarrow> string option set" where
  "existingPhones cluster = set (filter truthy (map phoneNumber cluster))"

definition isEmailNew :: "string option \<Rightarrow> contact list \<Rightarrow> bool" where
  "isEmailNew e cluster = (truthy e \<and> e \<notin> existingEmails cluster)"

definition isPhoneNew :: "string option \<Rightarrow> contact list \<Rightarrow> bool" where
  "isPhoneNew p cluster = (truthy p \<and> p \<notin> existingPhones cluster)"

text \<open>The result is the cluster as the composer sees it, and the store.\<close>

definition extender ::
  "nat \<Rightarrow> string option \<Rightarrow> string option \<Rightarrow> nat \<Rightarrow> store \<Rightarrow> contact list \<times> store" where
  "extender now e p root s =
     (let cluster = fetch_cluster root s in
      if isEmailNew e cluster \<or> isPhoneNew p cluster then
        (let (newSecondary, s') = create now (or_null e) (or_null p) (Some root) Secondary s
         in (cluster @ [newSecondary], s'))
      else (cluster, s))"

subsection \<open>The consolidated response\<close>

text \<open>\<open>v ? [v] : []\<close>, and \<open>if (v) xs.push(v)\<close> on the empty list.\<close>

definition own :: "string option \<Rightarrow> string list" where
  "own v = (case v of None \<Rightarrow> [] | Some t \<Rightarrow> if t \<noteq> [] then [t] else [])"

text \<open>\<open>if (v && !xs.includes(v)) xs.push(v)\<close>\<close>

definition push_new :: "string option \<Rightarrow> string list \<Rightarrow> string list" where
  "push_new v xs =
     (case v of None \<Rightarrow> xs
      | Some t \<Rightarrow> if t \<noteq> [] \<and> t \<notin> set xs then xs @ [t] else xs)"

text \<open>The loop over the cluster, with its three accumulators.\<close>

fun compose_loop ::
  "nat \<Rightarrow> contact list \<Rightarrow> string list \<times> string list \<times> nat list
    \<Rightarrow> string list \<times> string list \<times> nat list" where
  "compose_loop root [] acc = acc"
| "compose_loop root (c # cs) (es, ps, ids) =
     (if id_c c = root then compose_loop root cs (es, ps, ids)
      else compose_loop root cs
             (push_new (email c) es, push_new (phoneNumber c) ps, ids @ [id_c c]))"

text \<open>
  \<open>cluster.find(...)!\<close> is \<open>undefined\<close> when no member has the root's id; reading its
  \<open>email\<close> throws, and the request ends with status 500.
\<close>

definition composer :: "nat \<Rightarrow> contact list \<Rightarrow> error + response" where
  "composer root cluster =
     (case find (\<lambda>c. id_c c = root) cluster of
        None \<Rightarrow> Inl InternalError
      | Some primary \<Rightarrow>
          (let (es, ps, ids) =
                 compose_loop root cluster
                   (own (email primary), own (phoneNumber primary), [])
           in Inr \<lparr>primaryContatctId = root, emails = es, phoneNumbers = ps,
                   secondaryContactIds = ids\<rparr>))"

subsection \<open>The handler\<close>

text \<open>Everything after the match: scenario 1, or merge, extension and response.\<close>

definition reconcile ::
  "nat \<Rightarrow> string option \<Rightarrow> string option \<Rightarrow> store \<Rightarrow> store \<times> (error + response)" where
  "reconcile now e p s =
     (let pids = primaryIds (matchingContacts e p s) in
      if length pids = 0 then
        (let (newPrimary, s') = create now (or_null e) (or_null p) None Primary s
         in (s', Inr \<lparr>primaryContatctId = id_c newPrimary,
                      emails = own (email newPrimary),
                      phoneNumbers = own (phoneNumber newPrimary),
                      secondaryContactIds = []\<rparr>))
      else
        (case merger pids s of
           Inl err \<Rightarrow> (s, Inl err)
         | Inr (rootPrimaryId, s1) \<Rightarrow>
             (let (cluster, s2) = extender now e p rootPrimaryId s1
              in (s2, composer rootPrimaryId cluster))))"

text \<open>
  The request is refused with status 400 when neither field is truthy, before any call
  of the store. The result is the store after the request and the response.
\<close>

definition identify :: "nat \<Rightarrow> request \<Rightarrow> store \<Rightarrow> store \<times> (error + response)" where
  "identify now req s =
     (if \<not> truthy (req_email req) \<and> \<not> truthy (req_phoneNumber req) then (s, Inl BadRequest)
      else reconcile now (req_email req) (req_phoneNumber req) s)"

section \<open>A call of the store that throws\<close>

text \<open>
  Every call of the store is awaited inside the handler's \<open>try\<close>. When one throws, the
  handler answers with status 500 and what it has written before stays in the table. A
  \<open>fault\<close> names the call that the database refuses during a request, if it is reached:
  the first \<open>findMany\<close>, a \<open>create\<close>, the fetch of the primaries, the first or the
  second \<open>updateMany\<close> of the merge, the commit of the transaction (the later copy of the
  handler only), the fetch of the cluster.
\<close>

datatype fault =
  NoFault | MatchFails | CreateFails | FetchPrimariesFails | DemoteFails | RelinkFails
  | CommitFails | FetchClusterFails

text \<open>
A write that the database may refuse: the store is then left as it was, and the call throws.
\<close>

definition store_write :: "bool \<Rightarrow> (store \<Rightarrow> store) \<Rightarrow> store \<Rightarrow> store \<times> (error + unit)" where
  "store_write fails w s = (if fails then (s, Inl InternalError) else (w s, Inr ()))"

text \<open>
  The two writes of the merge, one \<open>await\<close> after the other: the second write is not
  reached when the first one throws, and the first one stays when the second one throws.
\<close>

definition merge_writes :: "fault \<Rightarrow> nat \<Rightarrow> nat list \<Rightarrow> store \<Rightarrow> store \<times> (error + unit)" where
  "merge_writes f root others s =
     (case store_write (f = DemoteFails) (demote root others) s of
        (s1, Inl err) \<Rightarrow> (s1, Inl err)
      | (s1, Inr _) \<Rightarrow> store_write (f = RelinkFails) (relink root others) s1)"

subsection \<open>The handler of \<open>src/routes/identify.ts\<close>\<close>

text \<open>
  Lines 89 to 121, with the calls that may throw. The two \<open>updateMany\<close> calls are separate
  statements of the handler.
\<close>

definition merger_with :: "fault \<Rightarrow> nat list \<Rightarrow> store \<Rightarrow> store \<times> (error + nat)" where
  "merger_with f pids s =
     (if length pids > 1 then
        (if f = FetchPrimariesFails then (s, Inl InternalError)
         else
           (case fetch_primaries pids s of
              [] \<Rightarrow> (s, Inl InternalError)
            | oldestPrimary # rest \<Rightarrow>
                (let rootPrimaryId = id_c oldestPrimary;
                     otherPrimaryIds = map id_c rest
                 in case merge_writes f rootPrimaryId otherPrimaryIds s of
                      (s1, Inl err) \<Rightarrow> (s1, Inl err)
                    | (s1, Inr _) \<Rightarrow> (s1, Inr rootPrimaryId))))
      else (case pids of
              only # _ \<Rightarrow> (s, Inr only)
            | [] \<Rightarrow> (s, Inl InternalError)))"

text \<open>
Lines 128 to 157. The result is the store and, unless a call threw, the cluster.
\<close>

definition extender_with ::
  "fault \<Rightarrow> nat \<Rightarrow> string option \<Rightarrow> string option \<Rightarrow> nat \<Rightarrow> store
    \<Rightarrow> store \<times> (error + contact list)" where
  "extender_with f now e p root s =
     (if f = FetchClusterFails then (s, Inl InternalError)
      else
        (let cluster = fetch_cluster root s in
         if isEmailNew e cluster \<or> isPhoneNew p cluster then
           (if f = CreateFails then (s, Inl InternalError)
            else
              (let (newSecondary, s') =
                     create now (or_null e) (or_null p) (Some root) Secondary s
               in (s', Inr (cluster @ [newSecondary]))))
         else (s, Inr cluster)))"

text \<open>
The handler from step 1 on; \<open>catch (error)\<close> answers with status 500.
\<close>

definition reconcile_with ::
  "fault \<Rightarrow> nat \<Rightarrow> string option \<Rightarrow> string option \<Rightarrow> store \<Rightarrow> store \<times> (error + response)" where
  "reconcile_with f now e p s =
     (if f = MatchFails then (s, Inl InternalError)
      else
        (let pids = primaryIds (matchingContacts e p s) in
         if length pids = 0 then
           (if f = CreateFails then (s, Inl InternalError)
            else
              (let (newPrimary, s') = create now (or_null e) (or_null p) None Primary s
               in (s', Inr \<lparr>primaryContatctId = id_c newPrimary,
                            emails = own (email newPrimary),
                            phoneNumbers = own (phoneNumber newPrimary),
                            secondaryContactIds = []\<rparr>)))
         else
           (case merger_with f pids s of
              (s1, Inl err) \<Rightarrow> (s1, Inl err)
            | (s1, Inr rootPrimaryId) \<Rightarrow>
                (case extender_with f now e p rootPrimaryId s1 of
                   (s2, Inl err) \<Rightarrow> (s2, Inl err)
                 | (s2, Inr cluster) \<Rightarrow> (s2, composer rootPrimaryId cluster)))))"

definition identify_with ::
  "fault \<Rightarrow> nat \<Rightarrow> request \<Rightarrow> store \<Rightarrow> store \<times> (error + response)" where
  "identify_with f now req s =
     (if \<not> truthy (req_email req) \<and> \<not> truthy (req_phoneNumber req) then (s, Inl BadRequest)
      else reconcile_with f now (req_email req) (req_phoneNumber req) s)"

subsection \<open>The later copy of the handler, with the transaction\<close>

text \<open>
  The later copy of the handler (it validates with \<open>identifySchema\<close>) wraps the two
  writes of the merge in \<open>prisma.$transaction(async (tx) => { ... })\<close>; from step 1 on,
  everything else is the code above.

  \<open>prisma.$transaction\<close> is a call of the library. Its contract, as the handler's comment
  has it (\<open>both updateMany calls are ATOMIC\<close>, \<open>the database rolls back entirely\<close>) and
  as the spec's \<open>atomically\<close> has it: the writes of the callback are committed together;
  when the callback throws, or the commit fails, the store is the one from before the
  transaction and the error is thrown again.
\<close>

definition transaction ::
  "fault \<Rightarrow> (store \<Rightarrow> store \<times> (error + unit)) \<Rightarrow> store \<Rightarrow> store \<times> (error + unit)" where
  "transaction f body s =
     (case body s of
        (s', Inl err) \<Rightarrow> (s, Inl err)
      | (s', Inr v) \<Rightarrow> if f = CommitFails then (s, Inl InternalError) else (s', Inr v))"

definition merger_tx :: "fault \<Rightarrow> nat list \<Rightarrow> store \<Rightarrow> store \<times> (error + nat)" where
  "merger_tx f pids s =
     (if length pids > 1 then
        (if f = FetchPrimariesFails then (s, Inl InternalError)
         else
           (case fetch_primaries pids s of
              [] \<Rightarrow> (s, Inl InternalError)
            | oldestPrimary # rest \<Rightarrow>
                (let rootPrimaryId = id_c oldestPrimary;
                     otherPrimaryIds = map id_c rest
                 in case transaction f (merge_writes f rootPrimaryId otherPrimaryIds) s of
                      (s1, Inl err) \<Rightarrow> (s1, Inl err)
                    | (s1, Inr _) \<Rightarrow> (s1, Inr rootPrimaryId))))
      else (case pids of
              only # _ \<Rightarrow> (s, Inr only)
            | [] \<Rightarrow> (s, Inl InternalError)))"

text \<open>
  The handler from step 1 on, for the fields that \<open>identifySchema.parse\<close> returned. An
  error goes to \<open>next(error)\<close>.
\<close>

definition reconcile_tx ::
  "fault \<Rightarrow> nat \<Rightarrow> string option \<Rightarrow> string option \<Rightarrow> store \<Rightarrow> store \<times> (error + response)" where
  "reconcile_tx f now e p s =
     (if f = MatchFails then (s, Inl InternalError)
      else
        (let pids = primaryIds (matchingContacts e p s) in
         if length pids = 0 then
           (if f = CreateFails then (s, Inl InternalError)
            else
              (let (newPrimary, s') = create now (or_null e) (or_null p) None Primary s
               in (s', Inr \<lparr>primaryContatctId = id_c newPrimary,
                            emails = own (email newPrimary),
                            phoneNumbers = own (phoneNumber newPrimary),
                            secondaryContactIds = []\<rparr>)))
         else
           (case merger_tx f pids s of
              (s1, Inl err) \<Rightarrow> (s1, Inl err)
            | (s1, Inr rootPrimaryId) \<Rightarrow>
                (case extender_with f now e p rootPrimaryId s1 of
                   (s2, Inl err) \<Rightarrow> (s2, Inl err)
                 | (s2, Inr cluster) \<Rightarrow> (s2, composer rootPrimaryId cluster)))))"

text \<open>
  \<open>identifySchema.parse\<close>: an email that is given must have the format of an email, which
  is the library's test and a parameter here; \<open>superRefine\<close> then asks for one truthy
  field; \<open>null\<close> becomes \<open>undefined\<close>. A \<open>ZodError\<close> is answered with status 400 by the
  error handler.
\<close>

definition identifySchema ::
  "(string \<Rightarrow> bool) \<Rightarrow> request \<Rightarrow> error + (string option \<times> string option)" where
  "identifySchema valid_email req =
     (if (case req_email req of None \<Rightarrow> False | Some t \<Rightarrow> \<not> valid_email t) then Inl BadRequest
      else if \<not> truthy (req_email req) \<and> \<not> truthy (req_phoneNumber req) then Inl BadRequest
      else Inr (req_email req, req_phoneNumber req))"

definition identify_tx ::
  "(string \<Rightarrow> bool) \<Rightarrow> fault \<Rightarrow> nat \<Rightarrow> request \<Rightarrow> store \<Rightarrow> store \<times> (error + response)" where
  "identify_tx valid_email f now req s =
     (case identifySchema valid_email req of
        Inl err \<Rightarrow> (s, Inl err)
      | Inr (e, p) \<Rightarrow> reconcile_tx f now e p s)"

section \<open>Sequences of requests\<close>

text \<open>
  A request to the handler of \<open>src/routes/identify.ts\<close> comes with the call that the
  database refuses while it runs, if any, and with the time at which the database serves it.
\<close>

fun run :: "(fault \<times> nat \<times> request) list \<Rightarrow> store \<Rightarrow> store" where
  "run [] s = s"
| "run ((f, now, req) # rest) s = run rest (fst (identify_with f now req s))"

section \<open>Invariants of the table\<close>

text \<open>
The resolver's rule for one contact: its own id for a primary, its \<open>linkedId\<close> otherwise.
\<close>

definition root_of :: "contact \<Rightarrow> nat option" where
  "root_of c = (if linkPrecedence c = Primary then Some (id_c c) else linkedId c)"

text \<open>
  The invariants of the data model, over all rows: identifiers are unique and below the
  counter, a primary has no \<open>linkedId\<close>, and the \<open>linkedId\<close> of a secondary is the id of a
  primary.
\<close>

definition wf :: "store \<Rightarrow> bool" where
  "wf s =
     (distinct (map id_c (rows s)) \<and>
      (\<forall>c\<in>set (rows s). id_c c < nextId s) \<and>
      (\<forall>c\<in>set (rows s). linkPrecedence c = Primary \<longrightarrow> linkedId c = None) \<and>
      (\<forall>c\<in>set (rows s). linkPrecedence c = Secondary \<longrightarrow>
          (\<exists>r\<in>set (rows s). linkPrecedence r = Primary \<and> linkedId c = Some (id_c r))))"

definition is_primary_id :: "store \<Rightarrow> nat \<Rightarrow> bool" where
  "is_primary_id s r = (\<exists>c\<in>set (rows s). id_c c = r \<and> linkPrecedence c = Primary)"

text \<open>
  No chain of secondaries: the \<open>linkedId\<close> of a contact that is not deleted is the id of
  a row, and every row of that id is a primary.
\<close>

definition links_resolve :: "store \<Rightarrow> bool" where
  "links_resolve s =
     (\<forall>c\<in>set (rows s). deletedAt c = None \<longrightarrow>
        (case linkedId c of None \<Rightarrow> True
         | Some l \<Rightarrow> (\<exists>r\<in>set (rows s). id_c r = l) \<and>
                     (\<forall>r\<in>set (rows s). id_c r = l \<longrightarrow> linkPrecedence r = Primary)))"

text \<open>
  The cluster of a root: the row of that id and the rows linked to it. Every contact lies
  in the cluster of its root, whose only primary is the row with the root's id; every other
  member is a secondary linked to the root.
\<close>

definition cluster_of :: "nat \<Rightarrow> store \<Rightarrow> contact list" where
  "cluster_of r s = filter (\<lambda>c. id_c c = r \<or> linkedId c = Some r) (rows s)"

definition one_primary :: "store \<Rightarrow> bool" where
  "one_primary s =
     (\<forall>c\<in>set (rows s).
        (case root_of c of None \<Rightarrow> False
         | Some r \<Rightarrow>
            c \<in> set (cluster_of r s) \<and>
            (\<forall>x\<in>set (cluster_of r s).
               if id_c x = r then linkPrecedence x = Primary
               else linkPrecedence x = Secondary \<and> linkedId x = Some r) \<and>
            length (filter (\<lambda>x. linkPrecedence x = Primary) (cluster_of r s)) = 1))"

text \<open>
  Two contacts share a key when they have the same truthy email or the same truthy phone
  number. A key is confined when the contacts that share it, deleted ones apart, have the
  same root.
\<close>

definition shares_key :: "contact \<Rightarrow> contact \<Rightarrow> bool" where
  "shares_key c d =
     ((truthy (email c) \<and> email c = email d) \<or>
      (truthy (phoneNumber c) \<and> phoneNumber c = phoneNumber d))"

definition key_confined :: "store \<Rightarrow> bool" where
  "key_confined s =
     (\<forall>c\<in>set (rows s). \<forall>d\<in>set (rows s).
        deletedAt c = None \<longrightarrow> deletedAt d = None \<longrightarrow> shares_key c d \<longrightarrow> root_of c = root_of d)"

text \<open>
The effect of the two writes of the merge on one row, and on the store.
\<close>

definition merge_row :: "nat \<Rightarrow> nat list \<Rightarrow> contact \<Rightarrow> contact" where
  "merge_row root others c =
     (let c1 = (if id_c c \<in> set others
                then c\<lparr>linkedId := Some root, linkPrecedence := Secondary\<rparr> else c)
      in if in_ids others (linkedId c1) then c1\<lparr>linkedId := Some root\<rparr> else c1)"

definition merged :: "nat \<Rightarrow> nat list \<Rightarrow> store \<Rightarrow> store" where
  "merged root others s = relink root others (demote root others s)"

text \<open>
The result of \<open>merger\<close>, in the shape of the results of \<open>merger_with\<close>.
\<close>

definition lift_merger :: "nat list \<Rightarrow> store \<Rightarrow> store \<times> (error + nat)" where
  "lift_merger pids s =
     (case merger pids s of Inl err \<Rightarrow> (s, Inl err) | Inr (root, s1) \<Rightarrow> (s1, Inr root))"

text \<open>
The row that \<open>create\<close> inserts.
\<close>

definition new_contact ::
  "nat \<Rightarrow> string option \<Rightarrow> string option \<Rightarrow> nat option \<Rightarrow> precedence \<Rightarrow> store \<Rightarrow> contact" where
  "new_contact now e p l prec s =
     \<lparr>id_c = nextId s, email = e, phoneNumber = p, linkedId = l,
      linkPrecedence = prec, createdAt = now, deletedAt = None\<rparr>"

text \<open>
  De-duplication in first-seen order, as the spec words the lists of the response: of
  equal elements the first one stays.
\<close>

definition first_seen :: "'a list \<Rightarrow> 'a list" where
  "first_seen xs = rev (remdups (rev xs))"

section \<open>Example stores\<close>

text \<open>
The empty table.
\<close>

definition empty_store :: store where
  "empty_store = \<lparr>rows = [], nextId = 1\<rparr>"

text \<open>
  Two primaries, the second one newer, and a secondary of the second one: the request
  \<open>merge_request\<close> matches the first by email and the second by phone number.
\<close>

definition merge_store :: store where
  "merge_store =
     \<lparr>rows = [\<lparr>id_c = 1, email = Some ''a@x.com'', phoneNumber = None, linkedId = None,
               linkPrecedence = Primary, createdAt = 1, deletedAt = None\<rparr>,
              \<lparr>id_c = 2, email = None, phoneNumber = Some ''222'', linkedId = None,
               linkPrecedence = Primary, createdAt = 2, deletedAt = None\<rparr>,
              \<lparr>id_c = 3, email = Some ''b@x.com'', phoneNumber = None, linkedId = Some 2,
               linkPrecedence = Secondary, createdAt = 3, deletedAt = None\<rparr>],
      nextId = 4\<rparr>"

definition merge_request :: request where
  "merge_request = \<lparr>req_email = Some ''a@x.com'', req_phoneNumber = Some ''222''\<rparr>"

text \<open>
  \<open>merge_store\<close> after the first write of the merge alone: contact 2 is a secondary of
  contact 1, and contact 3 is still linked to contact 2.
\<close>

definition half_merged_store :: store where
  "half_merged_store =
     \<lparr>rows = [\<lparr>id_c = 1, email = Some ''a@x.com'', phoneNumber = None, linkedId = None,
               linkPrecedence = Primary, createdAt = 1, deletedAt = None\<rparr>,
              \<lparr>id_c = 2, email = None, phoneNumber = Some ''222'', linkedId = Some 1,
               linkPrecedence = Secondary, createdAt = 2, deletedAt = None\<rparr>,
              \<lparr>id_c = 3, email = Some ''b@x.com'', phoneNumber = None, linkedId = Some 2,
               linkPrecedence = Secondary, createdAt = 3, deletedAt = None\<rparr>],
      nextId = 4\<rparr>"

text \<open>
Two primaries of equal \<open>createdAt\<close>; the table holds the row of id 2 first.
\<close>

definition tie_store :: store where
  "tie_store =
     \<lparr>rows = [\<lparr>id_c = 2, email = None, phoneNumber = Some ''222'', linkedId = None,
               linkPrecedence = Primary, createdAt = 5, deletedAt = None\<rparr>,
              \<lparr>id_c = 1, email = Some ''a@x.com'', phoneNumber = None, linkedId = None,
               linkPrecedence = Primary, createdAt = 5, deletedAt = None\<rparr>],
      nextId = 3\<rparr>"

text \<open>
Two primaries and a soft-deleted secondary of the second one.
\<close>

definition deleted_store :: store where
  "deleted_store =
     \<lparr>rows = [\<lparr>id_c = 1, email = Some ''a@x.com'', phoneNumber = None, linkedId = None,
               linkPrecedence = Primary, createdAt = 1, deletedAt = None\<rparr>,
              \<lparr>id_c = 2, email = None, phoneNumber = Some ''222'', linkedId = None,
               linkPrecedence = Primary, createdAt = 2, deletedAt = None\<rparr>,
              \<lparr>id_c = 3, email = Some ''z@x.com'', phoneNumber = None, linkedId = Some 2,
               linkPrecedence = Secondary, createdAt = 3, deletedAt = Some 4\<rparr>],
      nextId = 4\<rparr>"

text \<open>
Three primaries, two of them with the same email.
\<close>

definition shared_email_store :: store where
  "shared_email_store =
     \<lparr>rows = [\<lparr>id_c = 1, email = Some ''a@x.com'', phoneNumber = Some ''111'', linkedId = None,
               linkPrecedence = Primary, createdAt = 1, deletedAt = None\<rparr>,
              \<lparr>id_c = 2, email = Some ''a@x.com'', phoneNumber = Some ''222'', linkedId = None,
               linkPrecedence = Primary, createdAt = 2, deletedAt = None\<rparr>,
              \<lparr>id_c = 3, email = Some ''b@x.com'', phoneNumber = Some ''333'', linkedId = None,
               linkPrecedence = Primary, createdAt = 3, deletedAt = None\<rparr>],
      nextId = 4\<rparr>"

section \<open>Lemmas on the storage interface and the resolver\<close>

lemma truthy_None [simp]: "\<not> truthy None"
  by (simp add: truthy_def)

lemma set_findMany: "set (findMany wh s) = {c \<in> set (rows s). wh c}"
  by (simp add: findMany_def)

lemma distinct_ids_findMany:
  "distinct (map id_c (rows s)) \<Longrightarrow> distinct (map id_c (findMany wh s))"
  by (auto simp: findMany_def distinct_map intro: inj_on_subset)

lemma sorted_findMany: "sorted (map createdAt (findMany wh s))"
  by (simp add: findMany_def)

lemma set_matchingContacts:
  "set (matchingContacts e p s) = {c \<in> set (rows s). matches e p c}"
  by (simp add: matchingContacts_def set_findMany)

lemma set_fetch_cluster:
  "set (fetch_cluster root s) =
     {c \<in> set (rows s). (id_c c = root \<or> linkedId c = Some root) \<and> deletedAt c = None}"
  by (simp add: fetch_cluster_def set_findMany)

lemma set_collect_primaryIds:
  "set (collect_primaryIds ms acc) = set acc \<union> {r. \<exists>c\<in>set ms. root_of c = Some r}"
  by (induction ms arbitrary: acc) (auto simp: set_add_def root_of_def split: option.splits)

lemma distinct_collect_primaryIds:
  "distinct acc \<Longrightarrow> distinct (collect_primaryIds ms acc)"
  by (induction ms arbitrary: acc) (auto simp: set_add_def split: option.splits)

lemma set_primaryIds: "set (primaryIds ms) = {r. \<exists>c\<in>set ms. root_of c = Some r}"
  by (simp add: primaryIds_def set_collect_primaryIds)

lemma distinct_primaryIds: "distinct (primaryIds ms)"
  by (simp add: primaryIds_def distinct_collect_primaryIds)

lemma create_eq:
  "create now e p l prec s =
     (new_contact now e p l prec s,
      \<lparr>rows = rows s @ [new_contact now e p l prec s], nextId = Suc (nextId s)\<rparr>)"
  by (simp add: create_def new_contact_def Let_def)

lemma extender_eq:
  "extender now e p root s =
     (if isEmailNew e (fetch_cluster root s) \<or> isPhoneNew p (fetch_cluster root s)
      then (fetch_cluster root s @ [new_contact now (or_null e) (or_null p) (Some root) Secondary s],
            snd (create now (or_null e) (or_null p) (Some root) Secondary s))
      else (fetch_cluster root s, s))"
  by (simp add: extender_def create_eq Let_def)

lemma isEmailNew_iff:
  "isEmailNew e cluster \<longleftrightarrow> truthy e \<and> (\<forall>c\<in>set cluster. email c \<noteq> e)"
  by (auto simp: isEmailNew_def existingEmails_def)

lemma isPhoneNew_iff:
  "isPhoneNew p cluster \<longleftrightarrow> truthy p \<and> (\<forall>c\<in>set cluster. phoneNumber c \<noteq> p)"
  by (auto simp: isPhoneNew_def existingPhones_def)

text \<open>
The cluster that the handler fetches is the part of the cluster that is not deleted.
\<close>

lemma set_fetch_cluster_cluster_of:
  "set (fetch_cluster r s) = {c \<in> set (cluster_of r s). deletedAt c = None}"
  by (auto simp: set_fetch_cluster cluster_of_def)

section \<open>The effect of the merge\<close>

lemma rows_merge:
  "rows (relink root others (demote root others s)) = map (merge_row root others) (rows s)"
  by (simp add: relink_def demote_def updateMany_def merge_row_def Let_def)

lemma nextId_merge: "nextId (relink root others (demote root others s)) = nextId s"
  by (simp add: relink_def demote_def updateMany_def)

lemma merge_row_fields [simp]:
  "id_c (merge_row root others c) = id_c c"
  "email (merge_row root others c) = email c"
  "phoneNumber (merge_row root others c) = phoneNumber c"
  "createdAt (merge_row root others c) = createdAt c"
  "deletedAt (merge_row root others c) = deletedAt c"
  by (simp_all add: merge_row_def Let_def)

lemma merge_row_prec:
  "linkPrecedence (merge_row root others c) =
     (if id_c c \<in> set others then Secondary else linkPrecedence c)"
  by (simp add: merge_row_def Let_def)

lemma merge_row_linkedId:
  "linkedId (merge_row root others c) =
     (if id_c c \<in> set others \<or> in_ids others (linkedId c) then Some root else linkedId c)"
  by (simp add: merge_row_def Let_def in_ids_def)

lemma merge_row_root_of:
  assumes "id_c c \<in> set others \<longrightarrow> linkPrecedence c = Primary"
    and "linkPrecedence c = Primary \<longrightarrow> linkedId c = None"
  shows "root_of (merge_row root others c) =
           map_option (\<lambda>x. if x \<in> set others then root else x) (root_of c)"
  using assms
  by (cases "linkPrecedence c"; cases "linkedId c")
     (auto simp: root_of_def merge_row_prec merge_row_linkedId in_ids_def)

lemma rows_merged: "rows (merged root others s) = map (merge_row root others) (rows s)"
  by (simp add: merged_def rows_merge)

lemma nextId_merged: "nextId (merged root others s) = nextId s"
  by (simp add: merged_def nextId_merge)

lemma in_ids_Nil [simp]: "in_ids [] l = False"
  by (simp add: in_ids_def split: option.splits)

lemma merged_Nil: "merged root [] s = s"
  by (simp add: merged_def relink_def demote_def updateMany_def)

lemma merge_row_Nil [simp]: "merge_row root [] c = c"
  by (simp add: merge_row_def)

lemma map_merge_row_Nil [simp]: "map (merge_row root []) xs = xs"
  by (simp add: map_idI)

lemma matches_merge_row [simp]: "matches e p (merge_row root others c) = matches e p c"
  by (simp add: matches_def)

lemma shares_key_merge_row [simp]:
  "shares_key (merge_row root others c) (merge_row root others d) = shares_key c d"
  by (simp add: shares_key_def)

lemma merger_Inr:
  "merger pids s = Inr (root, s1) \<Longrightarrow> \<exists>others. s1 = merged root others s"
  by (auto simp: merger_def merged_def Let_def split: if_splits list.splits
           intro: exI[of _ "[]"] merged_Nil[unfolded merged_def, symmetric])

lemma merger_Inl: "merger pids s = Inl err \<Longrightarrow> err = InternalError"
  by (auto simp: merger_def Let_def split: if_splits list.splits)


section \<open>The invariants are kept by a request that the store serves to the end\<close>

lemma wf_unique_id:
  "wf s \<Longrightarrow> c \<in> set (rows s) \<Longrightarrow> d \<in> set (rows s) \<Longrightarrow> id_c c = id_c d \<Longrightarrow> c = d"
  by (auto simp: wf_def distinct_map dest: inj_onD)

lemma wf_merged:
  assumes wf: "wf s" and root: "is_primary_id s root" and notin: "root \<notin> set others"
    and oth: "\<forall>r\<in>set others. is_primary_id s r"
  shows "wf (merged root others s)"
proof -
  have prim_oth: "linkPrecedence c = Primary" if "c \<in> set (rows s)" "id_c c \<in> set others" for c
    using that oth wf wf_unique_id unfolding is_primary_id_def by metis
  have keep: "linkPrecedence (merge_row root others r) = Primary"
    if "r \<in> set (rows s)" "linkPrecedence r = Primary" "id_c r \<notin> set others" for r
    using that by (simp add: merge_row_prec)
  have d: "distinct (map id_c (rows (merged root others s)))"
    using wf by (simp add: rows_merged wf_def comp_def)
  have f: "\<forall>c\<in>set (rows (merged root others s)). id_c c < nextId (merged root others s)"
    using wf by (auto simp: rows_merged nextId_merged wf_def)
  have p: "\<forall>c\<in>set (rows (merged root others s)). linkPrecedence c = Primary \<longrightarrow> linkedId c = None"
    using wf by (auto simp: rows_merged wf_def merge_row_prec merge_row_linkedId in_ids_def
        split: if_splits)
  have s: "\<exists>r\<in>set (rows (merged root others s)).
             linkPrecedence r = Primary \<and> linkedId c' = Some (id_c r)"
    if c': "c' \<in> set (rows (merged root others s))" and sec: "linkPrecedence c' = Secondary" for c'
  proof -
    from c' obtain c where c: "c \<in> set (rows s)" and c'eq: "c' = merge_row root others c"
      by (auto simp: rows_merged)
    from root obtain r0 where r0: "r0 \<in> set (rows s)" "id_c r0 = root" "linkPrecedence r0 = Primary"
      by (auto simp: is_primary_id_def)
    have r0': "merge_row root others r0 \<in> set (rows (merged root others s))"
      using r0 by (simp add: rows_merged)
    have r0p: "linkPrecedence (merge_row root others r0) = Primary"
      using keep r0 notin by simp
    show ?thesis
    proof (cases "id_c c \<in> set others \<or> in_ids others (linkedId c)")
      case True
      then have "linkedId c' = Some root" by (simp add: c'eq merge_row_linkedId)
      with r0' r0p r0 show ?thesis by (intro bexI[of _ "merge_row root others r0"]) auto
    next
      case False
      then have l: "linkedId c' = linkedId c" and pc: "linkPrecedence c' = linkPrecedence c"
        by (simp_all add: c'eq merge_row_linkedId merge_row_prec)
      with sec c wf obtain r where r: "r \<in> set (rows s)" "linkPrecedence r = Primary"
          "linkedId c = Some (id_c r)"
        unfolding wf_def by metis
      with False have "id_c r \<notin> set others" by (simp add: in_ids_def)
      with r keep have "linkPrecedence (merge_row root others r) = Primary" by simp
      moreover have "merge_row root others r \<in> set (rows (merged root others s))"
        using r by (simp add: rows_merged)
      ultimately show ?thesis using l r by (intro bexI[of _ "merge_row root others r"]) auto
    qed
  qed
  from d f p s show ?thesis unfolding wf_def by blast
qed

lemma merger_result:
  assumes wf: "wf s" and ne: "pids \<noteq> []" and prim: "\<forall>r\<in>set pids. is_primary_id s r"
  shows "\<exists>root others. merger pids s = Inr (root, merged root others s) \<and>
           root \<notin> set others \<and> set pids = insert root (set others) \<and>
           (length pids > 1 \<longrightarrow>
              (\<exists>oldest rest. fetch_primaries pids s = oldest # rest \<and> root = id_c oldest \<and>
                 others = map id_c rest))"
proof (cases "length pids > 1")
  case True
  have setf: "set (fetch_primaries pids s) = {c \<in> set (rows s). id_c c \<in> set pids}"
    by (simp add: fetch_primaries_def set_findMany)
  from ne obtain r where "r \<in> set pids" by (cases pids) auto
  with prim setf have "set (fetch_primaries pids s) \<noteq> {}" by (auto simp: is_primary_id_def)
  then obtain oldest rest where fp: "fetch_primaries pids s = oldest # rest"
    by (cases "fetch_primaries pids s") auto
  have "distinct (map id_c (fetch_primaries pids s))"
    using wf by (simp add: fetch_primaries_def distinct_ids_findMany wf_def)
  with fp have notin: "id_c oldest \<notin> set (map id_c rest)" by simp
  have "id_c ` set (fetch_primaries pids s) = set pids"
    using prim by (auto simp: setf is_primary_id_def image_iff)
  with fp have "set pids = insert (id_c oldest) (set (map id_c rest))" by auto
  with True fp notin show ?thesis
    by (auto simp: merger_def merged_def Let_def)
next
  case False
  with ne obtain only where "pids = [only]" by (cases pids) auto
  then show ?thesis by (auto simp: merger_def merged_Nil intro: exI[of _ "[]"])
qed

lemma wf_root_of:
  "wf s \<Longrightarrow> c \<in> set (rows s) \<Longrightarrow> \<exists>r. root_of c = Some r \<and> is_primary_id s r"
proof (cases "linkPrecedence c")
  case Primary
  assume "c \<in> set (rows s)"
  with Primary show ?thesis by (auto simp: root_of_def is_primary_id_def)
next
  case Secondary
  assume "wf s" "c \<in> set (rows s)"
  with Secondary obtain r where "r \<in> set (rows s)" "linkPrecedence r = Primary"
      "linkedId c = Some (id_c r)"
    unfolding wf_def by blast
  with Secondary show ?thesis by (auto simp: root_of_def is_primary_id_def)
qed

lemma pids_primary:
  "wf s \<Longrightarrow> \<forall>r\<in>set (primaryIds (matchingContacts e p s)). is_primary_id s r"
  using wf_root_of by (fastforce simp: set_primaryIds set_matchingContacts)

lemma pids_Nil_iff:
  "wf s \<Longrightarrow> primaryIds (matchingContacts e p s) = [] \<longleftrightarrow> (\<forall>c\<in>set (rows s). \<not> matches e p c)"
proof -
  assume wf: "wf s"
  have "primaryIds (matchingContacts e p s) = [] \<longleftrightarrow> set (primaryIds (matchingContacts e p s)) = {}"
    by simp
  also have "\<dots> \<longleftrightarrow> (\<forall>c\<in>set (rows s). \<not> matches e p c)"
  proof
    assume e: "set (primaryIds (matchingContacts e p s)) = {}"
    show "\<forall>c\<in>set (rows s). \<not> matches e p c"
    proof
      fix c assume c: "c \<in> set (rows s)"
      show "\<not> matches e p c"
      proof
        assume "matches e p c"
        with c have "c \<in> set (matchingContacts e p s)" by (simp add: set_matchingContacts)
        moreover from wf_root_of[OF wf c] obtain r where "root_of c = Some r" by blast
        ultimately have "r \<in> set (primaryIds (matchingContacts e p s))"
          by (auto simp: set_primaryIds)
        with e show False by simp
      qed
    qed
  next
    assume "\<forall>c\<in>set (rows s). \<not> matches e p c"
    then show "set (primaryIds (matchingContacts e p s)) = {}"
      by (auto simp: set_primaryIds set_matchingContacts)
  qed
  finally show ?thesis .
qed

lemma wf_create:
  assumes "wf s"
    and "(prec = Primary \<and> l = None) \<or> (prec = Secondary \<and> (\<exists>r. l = Some r \<and> is_primary_id s r))"
  shows "wf (snd (create now e p l prec s))"
proof -
  let ?n = "new_contact now e p l prec s"
  have fresh: "nextId s \<notin> id_c ` set (rows s)" using assms(1) by (auto simp: wf_def)
  show ?thesis
    using assms fresh unfolding wf_def create_eq is_primary_id_def
    by (auto simp: new_contact_def less_Suc_eq)
qed

lemma is_primary_id_merged:
  "is_primary_id s r \<Longrightarrow> r \<notin> set others \<Longrightarrow> is_primary_id (merged root others s) r"
proof -
  assume "is_primary_id s r" and n: "r \<notin> set others"
  then obtain c where c: "c \<in> set (rows s)" "id_c c = r" "linkPrecedence c = Primary"
    by (auto simp: is_primary_id_def)
  then have "merge_row root others c \<in> set (rows (merged root others s))"
    by (simp add: rows_merged)
  moreover have "linkPrecedence (merge_row root others c) = Primary"
    using c n by (simp add: merge_row_prec)
  ultimately show ?thesis using c unfolding is_primary_id_def
    by (intro bexI[of _ "merge_row root others c"]) auto
qed

lemma reconcile_cases:
  assumes wf: "wf s"
  shows "(primaryIds (matchingContacts e p s) = [] \<and>
          reconcile now e p s =
            (snd (create now (or_null e) (or_null p) None Primary s),
             Inr \<lparr>primaryContatctId = nextId s, emails = own (or_null e),
                  phoneNumbers = own (or_null p), secondaryContactIds = []\<rparr>)) \<or>
         (\<exists>root others.
            primaryIds (matchingContacts e p s) \<noteq> [] \<and>
            merger (primaryIds (matchingContacts e p s)) s = Inr (root, merged root others s) \<and>
            root \<notin> set others \<and>
            set (primaryIds (matchingContacts e p s)) = insert root (set others) \<and>
            reconcile now e p s =
              (snd (extender now e p root (merged root others s)),
               composer root (fst (extender now e p root (merged root others s)))))"
proof (cases "primaryIds (matchingContacts e p s) = []")
  case True
  then show ?thesis
    by (simp add: reconcile_def create_eq new_contact_def Let_def)
next
  case False
  from merger_result[OF wf False pids_primary[OF wf]]
  obtain root others where
    m: "merger (primaryIds (matchingContacts e p s)) s = Inr (root, merged root others s)"
    and r: "root \<notin> set others"
    and st: "set (primaryIds (matchingContacts e p s)) = insert root (set others)"
    by blast
  have "reconcile now e p s =
          (snd (extender now e p root (merged root others s)),
           composer root (fst (extender now e p root (merged root others s))))"
    using False m by (simp add: reconcile_def Let_def split: prod.splits)
  with False m r st show ?thesis by blast
qed

lemma wf_extender:
  "wf s \<Longrightarrow> is_primary_id s root \<Longrightarrow> wf (snd (extender now e p root s))"
  by (simp add: extender_eq wf_create)

lemma wf_reconcile: "wf s \<Longrightarrow> wf (fst (reconcile now e p s))"
proof -
  assume wf: "wf s"
  from reconcile_cases[OF wf, of e p now] show ?thesis
  proof (elim disjE conjE exE)
    assume "reconcile now e p s =
            (snd (create now (or_null e) (or_null p) None Primary s),
             Inr \<lparr>primaryContatctId = nextId s, emails = own (or_null e),
                  phoneNumbers = own (or_null p), secondaryContactIds = []\<rparr>)"
    then show ?thesis using wf by (simp add: wf_create)
  next
    fix root others
    assume r: "root \<notin> set others"
      and st: "set (primaryIds (matchingContacts e p s)) = insert root (set others)"
      and eq: "reconcile now e p s =
              (snd (extender now e p root (merged root others s)),
               composer root (fst (extender now e p root (merged root others s))))"
    have pr: "is_primary_id s root" and po: "\<forall>x\<in>set others. is_primary_id s x"
      using pids_primary[OF wf, of e p] st by auto
    have "wf (merged root others s)" using wf_merged[OF wf pr r po] .
    moreover have "is_primary_id (merged root others s) root"
      using is_primary_id_merged[OF pr r] .
    ultimately show ?thesis using eq by (simp add: wf_extender)
  qed
qed

lemma wf_identify: "wf s \<Longrightarrow> wf (fst (identify now req s))"
  by (simp add: identify_def wf_reconcile)

lemma root_of_merged_row:
  assumes wf: "wf s" and oth: "\<forall>r\<in>set others. is_primary_id s r" and c: "c \<in> set (rows s)"
  shows "root_of (merge_row root others c) =
           map_option (\<lambda>x. if x \<in> set others then root else x) (root_of c)"
proof (rule merge_row_root_of)
  show "id_c c \<in> set others \<longrightarrow> linkPrecedence c = Primary"
    using oth wf c wf_unique_id unfolding is_primary_id_def by metis
  show "linkPrecedence c = Primary \<longrightarrow> linkedId c = None"
    using wf c by (simp add: wf_def)
qed

lemma key_confined_merged:
  assumes wf: "wf s" and kc: "key_confined s" and oth: "\<forall>r\<in>set others. is_primary_id s r"
  shows "key_confined (merged root others s)"
  unfolding key_confined_def rows_merged
proof (intro ballI impI)
  fix c' d'
  assume c': "c' \<in> set (map (merge_row root others) (rows s))"
    and d': "d' \<in> set (map (merge_row root others) (rows s))"
    and live: "deletedAt c' = None" "deletedAt d' = None" and sk: "shares_key c' d'"
  from c' obtain c where c: "c \<in> set (rows s)" "c' = merge_row root others c" by auto
  from d' obtain d where d: "d \<in> set (rows s)" "d' = merge_row root others d" by auto
  from live sk c d have "root_of c = root_of d"
    using kc unfolding key_confined_def by simp
  then show "root_of c' = root_of d'"
    using c d root_of_merged_row[OF wf oth] by simp
qed

lemma matched_root_after_merge:
  assumes wf: "wf s" and oth: "\<forall>r\<in>set others. is_primary_id s r"
    and st: "set (primaryIds (matchingContacts e p s)) = insert root (set others)"
    and c: "c \<in> set (rows s)" and m: "matches e p c"
  shows "root_of (merge_row root others c) = Some root"
proof -
  from wf_root_of[OF wf c] obtain r where r: "root_of c = Some r" by blast
  with c m have "r \<in> set (primaryIds (matchingContacts e p s))"
    by (auto simp: set_primaryIds set_matchingContacts)
  with st have "(if r \<in> set others then root else r) = root" by auto
  with r show ?thesis using root_of_merged_row[OF wf oth c] by simp
qed

lemma key_confined_append:
  assumes kc: "key_confined s"
    and n: "\<forall>d\<in>set (rows s). deletedAt d = None \<longrightarrow> shares_key n d \<or> shares_key d n \<longrightarrow>
              root_of d = root_of n"
  shows "key_confined \<lparr>rows = rows s @ [n], nextId = k\<rparr>"
  using kc n unfolding key_confined_def by (auto; metis)

lemma shares_key_new_contact:
  assumes "shares_key (new_contact now (or_null e) (or_null p) l prec s) d \<or>
           shares_key d (new_contact now (or_null e) (or_null p) l prec s)"
    and "deletedAt d = None"
  shows "matches e p d"
  using assms
  by (auto simp: shares_key_def new_contact_def matches_def or_null_def split: if_splits)

lemma key_confined_reconcile:
  assumes wf: "wf s" and kc: "key_confined s"
  shows "key_confined (fst (reconcile now e p s))"
proof -
  from reconcile_cases[OF wf, of e p now] show ?thesis
  proof (elim disjE conjE exE)
    assume nil: "primaryIds (matchingContacts e p s) = []"
      and eq: "reconcile now e p s =
            (snd (create now (or_null e) (or_null p) None Primary s),
             Inr \<lparr>primaryContatctId = nextId s, emails = own (or_null e),
                  phoneNumbers = own (or_null p), secondaryContactIds = []\<rparr>)"
    from nil have nomatch: "\<forall>c\<in>set (rows s). \<not> matches e p c"
      using pids_Nil_iff[OF wf] by simp
    have "key_confined \<lparr>rows = rows s @ [new_contact now (or_null e) (or_null p) None Primary s],
                         nextId = Suc (nextId s)\<rparr>"
      using kc nomatch shares_key_new_contact by (intro key_confined_append) blast+
    then show ?thesis using eq by (simp add: create_eq)
  next
    fix root others
    assume r: "root \<notin> set others"
      and st: "set (primaryIds (matchingContacts e p s)) = insert root (set others)"
      and eq: "reconcile now e p s =
              (snd (extender now e p root (merged root others s)),
               composer root (fst (extender now e p root (merged root others s))))"
    let ?s1 = "merged root others s"
    let ?n = "new_contact now (or_null e) (or_null p) (Some root) Secondary ?s1"
    have po: "\<forall>x\<in>set others. is_primary_id s x"
      using pids_primary[OF wf, of e p] st by auto
    have kc1: "key_confined ?s1" using key_confined_merged[OF wf kc po] .
    have "root_of d = root_of ?n"
      if d: "d \<in> set (rows ?s1)" and live: "deletedAt d = None"
        and sk: "shares_key ?n d \<or> shares_key d ?n" for d
    proof -
      from d obtain d0 where d0: "d0 \<in> set (rows s)" "d = merge_row root others d0"
        by (auto simp: rows_merged)
      from shares_key_new_contact[OF sk live] d0 have "matches e p d0" by simp
      from matched_root_after_merge[OF wf po st d0(1) this] d0
      show ?thesis by (simp add: root_of_def new_contact_def)
    qed
    then have "key_confined \<lparr>rows = rows ?s1 @ [?n], nextId = Suc (nextId ?s1)\<rparr>"
      using kc1 by (intro key_confined_append) blast+
    with kc1 show ?thesis using eq by (simp add: extender_eq create_eq)
  qed
qed

lemma key_confined_identify:
  "wf s \<Longrightarrow> key_confined s \<Longrightarrow> key_confined (fst (identify now req s))"
  by (simp add: identify_def key_confined_reconcile)

lemma wf_links_resolve: "wf s \<Longrightarrow> links_resolve s"
  unfolding links_resolve_def
proof (intro ballI impI)
  fix c assume wf: "wf s" and c: "c \<in> set (rows s)"
  show "case linkedId c of None \<Rightarrow> True
         | Some l \<Rightarrow> (\<exists>r\<in>set (rows s). id_c r = l) \<and>
                     (\<forall>r\<in>set (rows s). id_c r = l \<longrightarrow> linkPrecedence r = Primary)"
  proof (cases "linkedId c")
    case None then show ?thesis by simp
  next
    case (Some l)
    with wf c have "linkPrecedence c = Secondary"
      by (cases "linkPrecedence c") (auto simp: wf_def)
    with wf c Some obtain r where r: "r \<in> set (rows s)" "linkPrecedence r = Primary" "l = id_c r"
      unfolding wf_def by fastforce
    with wf_unique_id[OF wf] have "\<forall>x\<in>set (rows s). id_c x = l \<longrightarrow> linkPrecedence x = Primary"
      by metis
    with r Some show ?thesis by auto
  qed
qed

lemma filter_eq_single:
  "distinct xs \<Longrightarrow> p \<in> set xs \<Longrightarrow> filter (\<lambda>x. x = p) xs = [p]"
  by (induction xs) (auto simp: filter_empty_conv)

lemma wf_one_primary:
  assumes wf: "wf s"
  shows "one_primary s"
  unfolding one_primary_def
proof
  fix c assume c: "c \<in> set (rows s)"
  from wf_root_of[OF wf c] obtain r where r: "root_of c = Some r" and pr: "is_primary_id s r"
    by blast
  from pr obtain p where p: "p \<in> set (rows s)" "id_c p = r" "linkPrecedence p = Primary"
    by (auto simp: is_primary_id_def)
  have uniq: "x = p" if "x \<in> set (rows s)" "id_c x = r" for x
    using wf_unique_id[OF wf that(1) p(1)] that p by simp
  have mem: "c \<in> set (cluster_of r s)"
    using c r by (auto simp: cluster_of_def root_of_def split: if_splits)
  have shape: "\<forall>x\<in>set (cluster_of r s).
               if id_c x = r then linkPrecedence x = Primary
               else linkPrecedence x = Secondary \<and> linkedId x = Some r"
  proof
    fix x assume x: "x \<in> set (cluster_of r s)"
    then have xin: "x \<in> set (rows s)" by (simp add: cluster_of_def)
    show "if id_c x = r then linkPrecedence x = Primary
               else linkPrecedence x = Secondary \<and> linkedId x = Some r"
    proof (cases "id_c x = r")
      case True with uniq[OF xin] p show ?thesis by simp
    next
      case False
      with x have l: "linkedId x = Some r" by (simp add: cluster_of_def)
      with wf xin have "linkPrecedence x = Secondary"
        by (cases "linkPrecedence x") (auto simp: wf_def)
      with False l show ?thesis by simp
    qed
  qed
  have "filter (\<lambda>x. linkPrecedence x = Primary) (cluster_of r s) = filter (\<lambda>x. x = p) (rows s)"
    unfolding cluster_of_def filter_filter
  proof (rule filter_cong[OF refl])
    fix x assume xin: "x \<in> set (rows s)"
    show "((id_c x = r \<or> linkedId x = Some r) \<and> linkPrecedence x = Primary) = (x = p)"
      using uniq[OF xin] p wf xin by (auto simp: wf_def)
  qed
  also have "\<dots> = [p]"
    using wf p(1) by (intro filter_eq_single) (auto simp: wf_def distinct_map)
  finally have one: "length (filter (\<lambda>x. linkPrecedence x = Primary) (cluster_of r s)) = 1"
    by simp
  from r mem shape one
  show "case root_of c of None \<Rightarrow> False
         | Some r \<Rightarrow>
            c \<in> set (cluster_of r s) \<and>
            (\<forall>x\<in>set (cluster_of r s).
               if id_c x = r then linkPrecedence x = Primary
               else linkPrecedence x = Secondary \<and> linkedId x = Some r) \<and>
            length (filter (\<lambda>x. linkPrecedence x = Primary) (cluster_of r s)) = 1"
    by simp
qed

lemma reconcile_rows:
  "\<exists>root others extra.
     rows (fst (reconcile now e p s)) = map (merge_row root others) (rows s) @ extra \<and>
     (extra = [] \<or> (\<exists>l prec. extra = [new_contact now (or_null e) (or_null p) l prec s]))"
proof (cases "primaryIds (matchingContacts e p s) = []")
  case True
  then have "rows (fst (reconcile now e p s)) =
      map (merge_row 0 []) (rows s) @ [new_contact now (or_null e) (or_null p) None Primary s]"
    by (simp add: reconcile_def create_eq Let_def)
  then show ?thesis by blast
next
  case False
  show ?thesis
  proof (cases "merger (primaryIds (matchingContacts e p s)) s")
    case (Inl err)
    with False have "rows (fst (reconcile now e p s)) = map (merge_row 0 []) (rows s) @ []"
      by (simp add: reconcile_def Let_def)
    then show ?thesis by blast
  next
    case (Inr rs)
    obtain root s1 where rs: "rs = (root, s1)" by (cases rs)
    with Inr merger_Inr obtain others where s1: "s1 = merged root others s" by blast
    have n: "new_contact now (or_null e) (or_null p) (Some root) Secondary (merged root others s)
           = new_contact now (or_null e) (or_null p) (Some root) Secondary s"
      by (simp add: new_contact_def nextId_merged)
    from False Inr rs s1
    have "fst (reconcile now e p s) = snd (extender now e p root (merged root others s))"
      by (simp add: reconcile_def Let_def split: prod.splits)
    then have "rows (fst (reconcile now e p s)) = map (merge_row root others) (rows s) @ [] \<or>
          rows (fst (reconcile now e p s)) = map (merge_row root others) (rows s) @
             [new_contact now (or_null e) (or_null p) (Some root) Secondary s]"
      by (simp add: extender_eq create_eq rows_merged n)
    then show ?thesis by blast
  qed
qed

lemma merger_keeps:
  assumes wf: "wf s" and ne: "primaryIds (matchingContacts e p s) \<noteq> []"
    and m: "merger (primaryIds (matchingContacts e p s)) s = Inr (root, s1)"
  shows "wf s1" and "key_confined s \<Longrightarrow> key_confined s1"
proof -
  from reconcile_cases[OF wf, of e p 0] ne obtain root' others where
    m': "merger (primaryIds (matchingContacts e p s)) s = Inr (root', merged root' others s)"
    and notin: "root' \<notin> set others"
    and st: "set (primaryIds (matchingContacts e p s)) = insert root' (set others)"
    by blast
  from m m' have eq: "s1 = merged root' others s" by auto
  have pr: "is_primary_id s root'" and po: "\<forall>x\<in>set others. is_primary_id s x"
    using pids_primary[OF wf, of e p] st by auto
  show "wf s1" unfolding eq using wf_merged[OF wf pr notin po] .
  show "key_confined s1" if "key_confined s"
    unfolding eq using key_confined_merged[OF wf that po] .
qed

section \<open>The response\<close>

lemma remdups_append_filter:
  "remdups (xs @ ys) = remdups (filter (\<lambda>x. x \<notin> set ys) xs) @ remdups ys"
  by (induction xs) auto

lemma first_seen_append:
  "first_seen (xs @ ys) = first_seen xs @ first_seen (filter (\<lambda>x. x \<notin> set xs) ys)"
  by (simp add: first_seen_def remdups_append_filter[of "rev ys"] rev_filter)

lemma distinct_first_seen: "distinct (first_seen xs)"
  by (simp add: first_seen_def)

lemma first_seen_own: "first_seen (own v) = own v"
  by (simp add: first_seen_def own_def split: option.splits)

lemma push_new_eq: "push_new v es = es @ filter (\<lambda>x. x \<notin> set es) (own v)"
  by (auto simp: push_new_def own_def split: option.splits)

lemma foldl_push_new:
  "foldl (\<lambda>acc v. push_new v acc) es vs =
     es @ first_seen (filter (\<lambda>x. x \<notin> set es) (concat (map own vs)))"
proof (induction vs arbitrary: es)
  case Nil
  then show ?case by (simp add: first_seen_def)
next
  case (Cons v vs)
  have o: "first_seen (filter (\<lambda>x. x \<notin> set es) (own v)) = filter (\<lambda>x. x \<notin> set es) (own v)"
    by (simp add: first_seen_def own_def split: option.splits)
  have f: "(\<lambda>x. x \<notin> set (filter (\<lambda>x. x \<notin> set es) (own v)) \<and> x \<notin> set es)
         = (\<lambda>x. x \<notin> set es \<and> x \<notin> set (own v))"
    by auto
  have "foldl (\<lambda>acc v. push_new v acc) es (v # vs) =
          push_new v es @
          first_seen (filter (\<lambda>x. x \<notin> set (push_new v es)) (concat (map own vs)))"
    by (simp add: Cons.IH)
  also have "\<dots> = es @ first_seen (filter (\<lambda>x. x \<notin> set es) (concat (map own (v # vs))))"
    unfolding push_new_eq by (simp add: first_seen_append o f conj_commute)
  finally show ?case .
qed

lemma compose_loop_eq:
  "compose_loop root cs (es, ps, ids) =
     (foldl (\<lambda>acc v. push_new v acc) es (map email (filter (\<lambda>c. id_c c \<noteq> root) cs)),
      foldl (\<lambda>acc v. push_new v acc) ps (map phoneNumber (filter (\<lambda>c. id_c c \<noteq> root) cs)),
      ids @ map id_c (filter (\<lambda>c. id_c c \<noteq> root) cs))"
  by (induction cs arbitrary: es ps ids) auto

lemma first_seen_own_append:
  "own v @ first_seen (filter (\<lambda>x. x \<notin> set (own v)) ys) = first_seen (own v @ ys)"
  by (simp add: first_seen_append first_seen_own)

lemma composer_response:
  assumes "find (\<lambda>c. id_c c = root) cluster = Some primary"
  shows "composer root cluster =
           Inr \<lparr>primaryContatctId = root,
                emails = first_seen (own (email primary) @
                           concat (map (\<lambda>c. own (email c)) (filter (\<lambda>c. id_c c \<noteq> root) cluster))),
                phoneNumbers = first_seen (own (phoneNumber primary) @
                           concat (map (\<lambda>c. own (phoneNumber c)) (filter (\<lambda>c. id_c c \<noteq> root) cluster))),
                secondaryContactIds = map id_c (filter (\<lambda>c. id_c c \<noteq> root) cluster)\<rparr>"
  using assms
  by (simp add: composer_def compose_loop_eq foldl_push_new first_seen_own_append comp_def)

lemma hd_first_seen_own:
  "v = Some t \<Longrightarrow> t \<noteq> [] \<Longrightarrow> first_seen (own v @ ys) ! 0 = t"
  by (simp add: first_seen_append first_seen_own) (simp add: own_def)

lemma sorted_extender:
  assumes "\<forall>c\<in>set (fetch_cluster root s). createdAt c \<le> now"
  shows "sorted (map createdAt (fst (extender now e p root s)))"
  using assms
  by (auto simp: extender_eq fetch_cluster_def sorted_findMany sorted_append new_contact_def)


section \<open>Ties and roots\<close>

lemma fetch_primaries_ties:
  "filter (\<lambda>c. createdAt c = k) (fetch_primaries pids s) =
     filter (\<lambda>c. createdAt c = k) (filter (\<lambda>c. id_c c \<in> set pids) (rows s))"
  unfolding fetch_primaries_def findMany_def by (rule sort_key_stable)

lemma tie_lowest_id:
  assumes fp: "fetch_primaries pids s = oldest # rest"
    and srt: "sorted (map id_c (rows s))" and dst: "distinct (map id_c (rows s))"
    and c: "c \<in> set rest" and tie: "createdAt c = createdAt oldest"
  shows "id_c oldest < id_c c"
proof -
  let ?k = "createdAt oldest"
  let ?ys = "filter (\<lambda>c. createdAt c = ?k) (filter (\<lambda>c. id_c c \<in> set pids) (rows s))"
  have eq: "oldest # filter (\<lambda>c. createdAt c = ?k) rest = ?ys"
    using fetch_primaries_ties[of ?k pids s] fp by simp
  have s: "sorted (map id_c ?ys)" using srt by (intro sorted_filter)
  have d: "distinct (map id_c ?ys)" using dst by (intro distinct_map_filter)
  from c tie have cin: "c \<in> set (filter (\<lambda>c. createdAt c = ?k) rest)" by simp
  from s d cin show ?thesis unfolding eq[symmetric] by (auto simp: le_less image_iff)
qed

lemma card_le_one: "finite A \<Longrightarrow> (\<forall>a\<in>A. \<forall>b\<in>A. a = b) \<Longrightarrow> card A \<le> 1"
  by (simp add: card_le_Suc0_iff_eq)

lemma roots_bound:
  assumes kc: "key_confined s"
  shows "length (primaryIds (matchingContacts e p s)) \<le> 2"
    and "length (primaryIds (matchingContacts e None s)) \<le> 1"
    and "length (primaryIds (matchingContacts None p s)) \<le> 1"
proof -
  define A where "A = {r. \<exists>c\<in>set (rows s). deletedAt c = None \<and> truthy e \<and> email c = e \<and>
                          root_of c = Some r}"
  define B where "B = {r. \<exists>c\<in>set (rows s). deletedAt c = None \<and> truthy p \<and> phoneNumber c = p \<and>
                          root_of c = Some r}"
  have fin: "finite A" "finite B"
    unfolding A_def B_def by (rule finite_subset[where B = "(\<lambda>c. the (root_of c)) ` set (rows s)"]; force)+
  have "a = b" if "a \<in> A" "b \<in> A" for a b
  proof -
    from that obtain c d where
      c: "c \<in> set (rows s)" "deletedAt c = None" "truthy e" "email c = e" "root_of c = Some a"
      and d: "d \<in> set (rows s)" "deletedAt d = None" "email d = e" "root_of d = Some b"
      unfolding A_def by blast
    have "shares_key c d" using c d by (simp add: shares_key_def)
    with kc c d have "root_of c = root_of d" unfolding key_confined_def by blast
    with c d show ?thesis by simp
  qed
  then have cA: "card A \<le> 1" using fin by (intro card_le_one) auto
  have "a = b" if "a \<in> B" "b \<in> B" for a b
  proof -
    from that obtain c d where
      c: "c \<in> set (rows s)" "deletedAt c = None" "truthy p" "phoneNumber c = p" "root_of c = Some a"
      and d: "d \<in> set (rows s)" "deletedAt d = None" "phoneNumber d = p" "root_of d = Some b"
      unfolding B_def by blast
    have "shares_key c d" using c d by (simp add: shares_key_def)
    with kc c d have "root_of c = root_of d" unfolding key_confined_def by blast
    with c d show ?thesis by simp
  qed
  then have cB: "card B \<le> 1" using fin by (intro card_le_one) auto
  have len: "length (primaryIds ms) = card (set (primaryIds ms))" for ms
    using distinct_primaryIds by (simp add: distinct_card)
  have "set (primaryIds (matchingContacts e p s)) = A \<union> B"
    by (auto simp: set_primaryIds set_matchingContacts matches_def A_def B_def)
  then have "length (primaryIds (matchingContacts e p s)) = card (A \<union> B)" by (simp add: len)
  also have "\<dots> \<le> card A + card B" by (rule card_Un_le)
  finally show "length (primaryIds (matchingContacts e p s)) \<le> 2" using cA cB by simp
  have "set (primaryIds (matchingContacts e None s)) = A"
    by (auto simp: set_primaryIds set_matchingContacts matches_def A_def)
  then show "length (primaryIds (matchingContacts e None s)) \<le> 1" using cA by (simp add: len)
  have "set (primaryIds (matchingContacts None p s)) = B"
    by (auto simp: set_primaryIds set_matchingContacts matches_def B_def)
  then show "length (primaryIds (matchingContacts None p s)) \<le> 1" using cB by (simp add: len)
qed


section \<open>Requests with a call that throws\<close>

text \<open>
The two writes, outside and inside a transaction.
\<close>

lemma merge_writes_eq:
  "merge_writes f root others s =
     (if f = DemoteFails then (s, Inl InternalError)
      else if f = RelinkFails then (demote root others s, Inl InternalError)
      else (relink root others (demote root others s), Inr ()))"
  by (simp add: merge_writes_def store_write_def)

lemma transaction_merge_writes:
  "transaction f (merge_writes f root others) s =
     (if f = DemoteFails \<or> f = RelinkFails \<or> f = CommitFails then (s, Inl InternalError)
      else (relink root others (demote root others s), Inr ()))"
  by (simp add: transaction_def merge_writes_eq)

text \<open>
Without a fault both copies run as the handler of the sections above.
\<close>

lemma merger_with_NoFault: "merger_with NoFault pids s = lift_merger pids s"
  by (simp add: merger_with_def lift_merger_def merger_def merge_writes_eq Let_def
      split: list.splits)

lemma merger_tx_NoFault: "merger_tx NoFault pids s = lift_merger pids s"
  by (simp add: merger_tx_def lift_merger_def merger_def transaction_merge_writes Let_def
      split: list.splits)

lemma extender_with_NoFault:
  "extender_with NoFault now e p root s =
     (snd (extender now e p root s), Inr (fst (extender now e p root s)))"
  by (auto simp: extender_with_def extender_def Let_def split: prod.splits)

lemma reconcile_with_NoFault: "reconcile_with NoFault now e p s = reconcile now e p s"
  by (simp add: reconcile_with_def reconcile_def merger_with_NoFault lift_merger_def
      extender_with_NoFault Let_def split: sum.splits prod.splits)

lemma reconcile_tx_NoFault: "reconcile_tx NoFault now e p s = reconcile now e p s"
  by (simp add: reconcile_tx_def reconcile_def merger_tx_NoFault lift_merger_def
      extender_with_NoFault Let_def split: sum.splits prod.splits)

lemma identify_with_NoFault: "identify_with NoFault now req s = identify now req s"
  by (simp add: identify_with_def identify_def reconcile_with_NoFault)

text \<open>
  With a fault other than on the second write of the merge, the request ends as without
  a fault, or with the store it started from, or with the merged store; in the later copy
  of the handler that holds for every fault.
\<close>

lemma merger_with_cases:
  "f \<noteq> RelinkFails \<Longrightarrow>
     merger_with f pids s = lift_merger pids s \<or> merger_with f pids s = (s, Inl InternalError)"
  by (auto simp: merger_with_def lift_merger_def merger_def merge_writes_eq Let_def
      split: list.splits)

lemma merger_tx_cases:
  "merger_tx f pids s = lift_merger pids s \<or> merger_tx f pids s = (s, Inl InternalError)"
  by (auto simp: merger_tx_def lift_merger_def merger_def transaction_merge_writes Let_def
      split: list.splits)

lemma extender_with_cases:
  "extender_with f now e p root s =
       (snd (extender now e p root s), Inr (fst (extender now e p root s))) \<or>
   extender_with f now e p root s = (s, Inl InternalError)"
  by (auto simp: extender_with_def extender_def Let_def split: prod.splits)

lemma reconcile_shape:
  assumes m: "m = lift_merger (primaryIds (matchingContacts e p s)) s \<or> m = (s, Inl InternalError)"
  shows "(case m of
            (s1, Inl err) \<Rightarrow> (s1, Inl err)
          | (s1, Inr rootPrimaryId) \<Rightarrow>
              (case extender_with f now e p rootPrimaryId s1 of
                 (s2, Inl err) \<Rightarrow> (s2, Inl err)
               | (s2, Inr cluster) \<Rightarrow> (s2, composer rootPrimaryId cluster)))
           = (case merger (primaryIds (matchingContacts e p s)) s of
                Inl err \<Rightarrow> (s, Inl err)
              | Inr (rootPrimaryId, s1) \<Rightarrow>
                  (let (cluster, s2) = extender now e p rootPrimaryId s1
                   in (s2, composer rootPrimaryId cluster))) \<or>
         (case m of
            (s1, Inl err) \<Rightarrow> (s1, Inl err)
          | (s1, Inr rootPrimaryId) \<Rightarrow>
              (case extender_with f now e p rootPrimaryId s1 of
                 (s2, Inl err) \<Rightarrow> (s2, Inl err)
               | (s2, Inr cluster) \<Rightarrow> (s2, composer rootPrimaryId cluster)))
           = (s, Inl InternalError) \<or>
         (\<exists>root s1. merger (primaryIds (matchingContacts e p s)) s = Inr (root, s1) \<and>
            (case m of
               (s1, Inl err) \<Rightarrow> (s1, Inl err)
             | (s1, Inr rootPrimaryId) \<Rightarrow>
                 (case extender_with f now e p rootPrimaryId s1 of
                    (s2, Inl err) \<Rightarrow> (s2, Inl err)
                  | (s2, Inr cluster) \<Rightarrow> (s2, composer rootPrimaryId cluster)))
              = (s1, Inl InternalError))"
proof (cases "m = (s, Inl InternalError)")
  case True
  then show ?thesis by simp
next
  case False
  with m have ml: "m = lift_merger (primaryIds (matchingContacts e p s)) s" by simp
  show ?thesis
  proof (cases "merger (primaryIds (matchingContacts e p s)) s")
    case (Inl err)
    with merger_Inl[OF Inl] ml show ?thesis by (simp add: lift_merger_def)
  next
    case (Inr rs)
    obtain root s1 where rs: "rs = (root, s1)" by (cases rs)
    from extender_with_cases[of f now e p root s1] show ?thesis
    proof
      assume "extender_with f now e p root s1 =
                (snd (extender now e p root s1), Inr (fst (extender now e p root s1)))"
      with Inr rs ml show ?thesis by (simp add: lift_merger_def split: prod.splits)
    next
      assume "extender_with f now e p root s1 = (s1, Inl InternalError)"
      with Inr rs ml show ?thesis by (simp add: lift_merger_def)
    qed
  qed
qed

lemma reconcile_with_cases:
  assumes "f \<noteq> RelinkFails"
  shows "reconcile_with f now e p s = reconcile now e p s \<or>
         reconcile_with f now e p s = (s, Inl InternalError) \<or>
         (\<exists>root s1. primaryIds (matchingContacts e p s) \<noteq> [] \<and>
            merger (primaryIds (matchingContacts e p s)) s = Inr (root, s1) \<and>
            reconcile_with f now e p s = (s1, Inl InternalError))"
proof (cases "f = MatchFails \<or> primaryIds (matchingContacts e p s) = []")
  case True
  then show ?thesis by (auto simp: reconcile_with_def reconcile_def Let_def)
next
  case False
  from reconcile_shape[where m = "merger_with f (primaryIds (matchingContacts e p s)) s"
      and e = e and p = p and s = s and f = f and now = now, OF merger_with_cases[OF assms]]
    False
  show ?thesis by (simp add: reconcile_with_def reconcile_def Let_def)
qed

lemma reconcile_tx_cases:
  "reconcile_tx f now e p s = reconcile now e p s \<or>
   reconcile_tx f now e p s = (s, Inl InternalError) \<or>
   (\<exists>root s1. primaryIds (matchingContacts e p s) \<noteq> [] \<and>
      merger (primaryIds (matchingContacts e p s)) s = Inr (root, s1) \<and>
      reconcile_tx f now e p s = (s1, Inl InternalError))"
proof (cases "f = MatchFails \<or> primaryIds (matchingContacts e p s) = []")
  case True
  then show ?thesis by (auto simp: reconcile_tx_def reconcile_def Let_def)
next
  case False
  from reconcile_shape[where m = "merger_tx f (primaryIds (matchingContacts e p s)) s"
      and e = e and p = p and s = s and f = f and now = now, OF merger_tx_cases]
    False
  show ?thesis by (simp add: reconcile_tx_def reconcile_def Let_def)
qed

text \<open>
  The second write refused: the handler of \<open>src/routes/identify.ts\<close> ends with the
  demotion in the table, the later copy with the store it started from.
\<close>

lemma reconcile_with_RelinkFails:
  assumes "1 < length (primaryIds (matchingContacts e p s))"
    and "fetch_primaries (primaryIds (matchingContacts e p s)) s = oldest # rest"
  shows "reconcile_with RelinkFails now e p s =
           (demote (id_c oldest) (map id_c rest) s, Inl InternalError)"
  using assms by (auto simp: reconcile_with_def merger_with_def merge_writes_eq Let_def)

lemma reconcile_tx_fault_in_merge:
  assumes "1 < length (primaryIds (matchingContacts e p s))"
    and "f = DemoteFails \<or> f = RelinkFails \<or> f = CommitFails"
  shows "reconcile_tx f now e p s = (s, Inl InternalError)"
  using assms
  by (auto simp: reconcile_tx_def merger_tx_def transaction_merge_writes Let_def
      split: list.splits)

text \<open>
The invariants along requests with faults.
\<close>

lemma wf_reconcile_with:
  assumes "wf s" and "f \<noteq> RelinkFails"
  shows "wf (fst (reconcile_with f now e p s))"
  using reconcile_with_cases[OF assms(2), of now e p s] wf_reconcile[OF assms(1), of now e p]
    merger_keeps(1)[OF assms(1), of e p] assms(1)
  by (elim disjE exE conjE) simp_all

lemma key_confined_reconcile_with:
  assumes "wf s" and "key_confined s" and "f \<noteq> RelinkFails"
  shows "key_confined (fst (reconcile_with f now e p s))"
  using reconcile_with_cases[OF assms(3), of now e p s]
    key_confined_reconcile[OF assms(1,2), of now e p]
    merger_keeps(2)[OF assms(1) _ _ assms(2), of e p] assms(2)
  by (elim disjE exE conjE) simp_all

lemma wf_reconcile_tx:
  assumes "wf s"
  shows "wf (fst (reconcile_tx f now e p s))"
  using reconcile_tx_cases[of f now e p s] wf_reconcile[OF assms, of now e p]
    merger_keeps(1)[OF assms, of e p] assms
  by (elim disjE exE conjE) simp_all

lemma wf_identify_with:
  "wf s \<Longrightarrow> f \<noteq> RelinkFails \<Longrightarrow> wf (fst (identify_with f now req s))"
  by (simp add: identify_with_def wf_reconcile_with)

lemma key_confined_identify_with:
  "wf s \<Longrightarrow> key_confined s \<Longrightarrow> f \<noteq> RelinkFails \<Longrightarrow>
     key_confined (fst (identify_with f now req s))"
  by (simp add: identify_with_def key_confined_reconcile_with)

lemma wf_identify_tx: "wf s \<Longrightarrow> wf (fst (identify_tx valid_email f now req s))"
  by (auto simp: identify_tx_def wf_reconcile_tx split: sum.splits)

lemma wf_run:
  "wf s \<Longrightarrow> \<forall>x\<in>set reqs. fst x \<noteq> RelinkFails \<Longrightarrow> wf (run reqs s)"
  by (induction reqs arbitrary: s) (auto simp: wf_identify_with)

lemma key_confined_run:
  "wf s \<Longrightarrow> key_confined s \<Longrightarrow> \<forall>x\<in>set reqs. fst x \<noteq> RelinkFails \<Longrightarrow>
     key_confined (run reqs s)"
  by (induction reqs arbitrary: s) (auto simp: wf_identify_with key_confined_identify_with)

lemma invariants_without_half_merge:
  assumes "wf s" and "\<forall>x\<in>set reqs. fst x \<noteq> RelinkFails"
  shows "wf (run reqs s) \<and> links_resolve (run reqs s) \<and> one_primary (run reqs s)"
  using wf_run[OF assms] by (simp add: wf_links_resolve wf_one_primary)

lemma invariants_with_transaction:
  assumes "wf s"
  shows "wf (fst (identify_tx valid_email f now req s)) \<and>
         links_resolve (fst (identify_tx valid_email f now req s)) \<and>
         one_primary (fst (identify_tx valid_email f now req s))"
  using wf_identify_tx[OF assms] by (simp add: wf_links_resolve wf_one_primary)

section \<open>Falsy fields\<close>

lemma matches_falsy_email: "\<not> truthy e \<Longrightarrow> matches e p = matches None p"
  by (auto simp: matches_def fun_eq_iff)

lemma matches_falsy_phone: "\<not> truthy p \<Longrightarrow> matches e p = matches e None"
  by (auto simp: matches_def fun_eq_iff)

lemma or_null_falsy: "\<not> truthy v \<Longrightarrow> or_null v = None"
  by (simp add: or_null_def)

lemma isEmailNew_falsy: "\<not> truthy e \<Longrightarrow> isEmailNew e cl = isEmailNew None cl"
  by (simp add: isEmailNew_def)

lemma isPhoneNew_falsy: "\<not> truthy p \<Longrightarrow> isPhoneNew p cl = isPhoneNew None cl"
  by (simp add: isPhoneNew_def)

lemma extender_falsy_email:
  assumes "\<not> truthy e"
  shows "extender now e p = extender now None p"
proof -
  have a: "or_null e = or_null None" using assms by (simp add: or_null_def)
  have b: "isEmailNew e = isEmailNew None" using assms by (simp add: isEmailNew_def fun_eq_iff)
  show ?thesis unfolding extender_def a b by (rule refl)
qed

lemma extender_falsy_phone:
  assumes "\<not> truthy p"
  shows "extender now e p = extender now e None"
proof -
  have a: "or_null p = or_null None" using assms by (simp add: or_null_def)
  have b: "isPhoneNew p = isPhoneNew None" using assms by (simp add: isPhoneNew_def fun_eq_iff)
  show ?thesis unfolding extender_def a b by (rule refl)
qed

lemma reconcile_falsy_email:
  assumes "\<not> truthy e"
  shows "reconcile now e p s = reconcile now None p s"
proof -
  have a: "or_null e = or_null None" using assms by (simp add: or_null_def)
  show ?thesis
    unfolding reconcile_def matchingContacts_def matches_falsy_email[OF assms]
      extender_falsy_email[OF assms] a
    by (rule refl)
qed

lemma reconcile_falsy_phone:
  assumes "\<not> truthy p"
  shows "reconcile now e p s = reconcile now e None s"
proof -
  have a: "or_null p = or_null None" using assms by (simp add: or_null_def)
  show ?thesis
    unfolding reconcile_def matchingContacts_def matches_falsy_phone[OF assms]
      extender_falsy_phone[OF assms] a
    by (rule refl)
qed

lemma extender_with_falsy_phone:
  assumes "\<not> truthy p"
  shows "extender_with f now e p = extender_with f now e None"
proof -
  have a: "or_null p = or_null None" using assms by (simp add: or_null_def)
  have b: "isPhoneNew p = isPhoneNew None" using assms by (simp add: isPhoneNew_def fun_eq_iff)
  show ?thesis unfolding extender_with_def a b by (rule refl)
qed

lemma reconcile_tx_falsy_phone:
  assumes "\<not> truthy p"
  shows "reconcile_tx f now e p s = reconcile_tx f now e None s"
proof -
  have a: "or_null p = or_null None" using assms by (simp add: or_null_def)
  show ?thesis
    unfolding reconcile_tx_def matchingContacts_def matches_falsy_phone[OF assms]
      extender_with_falsy_phone[OF assms] a
    by (rule refl)
qed


section \<open>Facts about the example stores\<close>

lemma wf_merge_store: "wf merge_store"
  by code_simp


section \<open>The claims\<close>

subsection \<open>C1: the two writes of the merge and a refused call\<close>

text \<open>
  Claim C1. The claim asks that the two writes of the merge take effect together or not
  at all, and that a failure of the unit of work leaves no partial state. The handler of
  \<open>src/routes/identify.ts\<close> issues the two \<open>updateMany\<close> calls as separate statements:
  in \<open>merge_store\<close>, when the database refuses the second one, the request ends with
  status 500 and the store is \<open>half_merged_store\<close>, with contact 2 demoted and contact 3
  still linked to it.
\<close>

theorem second_write_refused_keeps_demotion:
  "identify_with RelinkFails 30 merge_request merge_store = (half_merged_store, Inl InternalError)"
  by code_simp

subsection \<open>C2: a link leads to a primary\<close>

text \<open>
  Claim C2. The claim asks that after every request the \<open>linkedId\<close> of a contact that is
  not deleted is the id of a primary. \<open>merge_store\<close> has the invariants of the data model;
  the request that merges its two primaries, with the second write refused, ends with
  status 500 and leaves contact 3 linked to contact 2, now a secondary.
\<close>

theorem partial_merge_breaks_links:
  "wf merge_store \<and> links_resolve merge_store \<and>
   snd (identify_with RelinkFails 30 merge_request merge_store) = Inl InternalError \<and>
   \<not> links_resolve (fst (identify_with RelinkFails 30 merge_request merge_store))"
  by code_simp

theorem partial_merge_breaks_links_witness:
  "\<not> links_resolve (fst (identify_with RelinkFails 30 merge_request merge_store)) \<and>
   fst (identify_with RelinkFails 30 merge_request merge_store) = half_merged_store \<and>
   linkedId (rows half_merged_store ! 2) = Some 2 \<and>
   id_c (rows half_merged_store ! 1) = 2 \<and>
   linkPrecedence (rows half_merged_store ! 1) = Secondary"
proof -
  from partial_merge_breaks_links
  have a: "\<not> links_resolve (fst (identify_with RelinkFails 30 merge_request merge_store))"
    by simp
  have b: "fst (identify_with RelinkFails 30 merge_request merge_store) = half_merged_store \<and>
   linkedId (rows half_merged_store ! 2) = Some 2 \<and>
   id_c (rows half_merged_store ! 1) = 2 \<and>
   linkPrecedence (rows half_merged_store ! 1) = Secondary"
    by code_simp
  from a b show ?thesis by simp
qed

subsection \<open>C3: one primary in every cluster\<close>

text \<open>
  Claim C3. The claim asks that every cluster has exactly one primary in every state that
  requests reach. Three requests build, from the empty table, two primaries and a
  secondary of the second one, and each cluster has its one primary; a fourth request
  merges the primaries and its second write is refused: the cluster of contact 2 then
  holds two secondaries and no primary.
\<close>

theorem partial_merge_cluster_without_primary:
  "run [(NoFault, 1, \<lparr>req_email = Some ''a@x.com'', req_phoneNumber = None\<rparr>),
        (NoFault, 2, \<lparr>req_email = None, req_phoneNumber = Some ''222''\<rparr>),
        (NoFault, 3, \<lparr>req_email = Some ''b@x.com'', req_phoneNumber = Some ''222''\<rparr>)] empty_store
     = \<lparr>rows = [\<lparr>id_c = 1, email = Some ''a@x.com'', phoneNumber = None, linkedId = None,
                 linkPrecedence = Primary, createdAt = 1, deletedAt = None\<rparr>,
                \<lparr>id_c = 2, email = None, phoneNumber = Some ''222'', linkedId = None,
                 linkPrecedence = Primary, createdAt = 2, deletedAt = None\<rparr>,
                \<lparr>id_c = 3, email = Some ''b@x.com'', phoneNumber = Some ''222'', linkedId = Some 2,
                 linkPrecedence = Secondary, createdAt = 3, deletedAt = None\<rparr>],
        nextId = 4\<rparr> \<and>
   one_primary
     (run [(NoFault, 1, \<lparr>req_email = Some ''a@x.com'', req_phoneNumber = None\<rparr>),
           (NoFault, 2, \<lparr>req_email = None, req_phoneNumber = Some ''222''\<rparr>),
           (NoFault, 3, \<lparr>req_email = Some ''b@x.com'', req_phoneNumber = Some ''222''\<rparr>)]
        empty_store) \<and>
   \<not> one_primary
     (run [(NoFault, 1, \<lparr>req_email = Some ''a@x.com'', req_phoneNumber = None\<rparr>),
           (NoFault, 2, \<lparr>req_email = None, req_phoneNumber = Some ''222''\<rparr>),
           (NoFault, 3, \<lparr>req_email = Some ''b@x.com'', req_phoneNumber = Some ''222''\<rparr>),
           (RelinkFails, 30, merge_request)]
        empty_store) \<and>
   map linkPrecedence
     (cluster_of 2
        (run [(NoFault, 1, \<lparr>req_email = Some ''a@x.com'', req_phoneNumber = None\<rparr>),
              (NoFault, 2, \<lparr>req_email = None, req_phoneNumber = Some ''222''\<rparr>),
              (NoFault, 3, \<lparr>req_email = Some ''b@x.com'', req_phoneNumber = Some ''222''\<rparr>),
              (RelinkFails, 30, merge_request)]
           empty_store)) = [Secondary, Secondary]"
  by code_simp

theorem partial_merge_cluster_without_primary_witness:
  "\<not> one_primary
     (run [(NoFault, 1, \<lparr>req_email = Some ''a@x.com'', req_phoneNumber = None\<rparr>),
           (NoFault, 2, \<lparr>req_email = None, req_phoneNumber = Some ''222''\<rparr>),
           (NoFault, 3, \<lparr>req_email = Some ''b@x.com'', req_phoneNumber = Some ''222''\<rparr>),
           (RelinkFails, 30, merge_request)]
        empty_store) \<and>
   map (\<lambda>c. (id_c c, linkPrecedence c, linkedId c))
     (rows (run [(NoFault, 1, \<lparr>req_email = Some ''a@x.com'', req_phoneNumber = None\<rparr>),
                 (NoFault, 2, \<lparr>req_email = None, req_phoneNumber = Some ''222''\<rparr>),
                 (NoFault, 3, \<lparr>req_email = Some ''b@x.com'', req_phoneNumber = Some ''222''\<rparr>),
                 (RelinkFails, 30, merge_request)]
              empty_store))
     = [(1, Primary, None), (2, Secondary, Some 1), (3, Secondary, Some 2)]"
proof -
  from partial_merge_cluster_without_primary
  have a: "\<not> one_primary
     (run [(NoFault, 1, \<lparr>req_email = Some ''a@x.com'', req_phoneNumber = None\<rparr>),
           (NoFault, 2, \<lparr>req_email = None, req_phoneNumber = Some ''222''\<rparr>),
           (NoFault, 3, \<lparr>req_email = Some ''b@x.com'', req_phoneNumber = Some ''222''\<rparr>),
           (RelinkFails, 30, merge_request)]
        empty_store)"
    by blast
  have b: "map (\<lambda>c. (id_c c, linkPrecedence c, linkedId c))
     (rows (run [(NoFault, 1, \<lparr>req_email = Some ''a@x.com'', req_phoneNumber = None\<rparr>),
                 (NoFault, 2, \<lparr>req_email = None, req_phoneNumber = Some ''222''\<rparr>),
                 (NoFault, 3, \<lparr>req_email = Some ''b@x.com'', req_phoneNumber = Some ''222''\<rparr>),
                 (RelinkFails, 30, merge_request)]
              empty_store))
     = [(1, Primary, None), (2, Secondary, Some 1), (3, Secondary, Some 2)]"
    by code_simp
  from a b show ?thesis by blast
qed

subsection \<open>C4: the oldest primary survives\<close>

text \<open>
  Claim C4, amended. When the request touches two or more primaries, the fetched rows
  are these primaries, the survivor is the first of them in ascending \<open>createdAt\<close>, so no
  other has an earlier \<open>createdAt\<close>; it stays primary and every other one becomes a
  secondary linked to it. The query orders by \<open>createdAt\<close> alone: among primaries of equal
  \<open>createdAt\<close> the survivor is the one that the table holds first, which is the one of
  lowest id when the table holds its rows in ascending order of id.
\<close>

theorem oldest_primary_survives:
  assumes wf: "wf s" and pids: "pids = primaryIds (matchingContacts e p s)"
    and many: "1 < length pids"
  shows "\<exists>oldest rest.
           fetch_primaries pids s = oldest # rest \<and>
           id_c ` set (oldest # rest) = set pids \<and>
           merger pids s =
             Inr (id_c oldest,
                  relink (id_c oldest) (map id_c rest) (demote (id_c oldest) (map id_c rest) s)) \<and>
           (\<forall>c\<in>set rest. createdAt oldest \<le> createdAt c) \<and>
           (\<forall>c\<in>set (rows (relink (id_c oldest) (map id_c rest)
                              (demote (id_c oldest) (map id_c rest) s))).
              (id_c c = id_c oldest \<longrightarrow> linkPrecedence c = Primary) \<and>
              (id_c c \<in> id_c ` set rest \<longrightarrow>
                 linkPrecedence c = Secondary \<and> linkedId c = Some (id_c oldest))) \<and>
           (sorted (map id_c (rows s)) \<longrightarrow>
              (\<forall>c\<in>set rest. createdAt c = createdAt oldest \<longrightarrow> id_c oldest < id_c c))"
proof -
  have ne: "pids \<noteq> []" using many by auto
  have prim: "\<forall>r\<in>set pids. is_primary_id s r" unfolding pids using pids_primary[OF wf] .
  from merger_result[OF wf ne prim] many obtain root others oldest rest where
    m: "merger pids s = Inr (root, merged root others s)"
    and notin: "root \<notin> set others" and st: "set pids = insert root (set others)"
    and fp: "fetch_primaries pids s = oldest # rest"
    and ro: "root = id_c oldest" "others = map id_c rest"
    by blast
  let ?s1 = "merged root others s"
  have pr: "is_primary_id s root" and po: "\<forall>x\<in>set others. is_primary_id s x"
    using prim st by auto
  have wf1: "wf ?s1" using wf_merged[OF wf pr notin po] .
  have ids: "id_c ` set (oldest # rest) = set pids" using st ro by auto
  have srt: "\<forall>c\<in>set rest. createdAt oldest \<le> createdAt c"
    using sorted_findMany[of "\<lambda>c. id_c c \<in> set pids" s] fp
    by (simp add: fetch_primaries_def)
  have keep: "linkPrecedence c = Primary" if "c \<in> set (rows ?s1)" "id_c c = root" for c
  proof -
    from is_primary_id_merged[OF pr notin, of root] obtain r0 where
      "r0 \<in> set (rows ?s1)" "id_c r0 = root" "linkPrecedence r0 = Primary"
      by (auto simp: is_primary_id_def)
    with that wf_unique_id[OF wf1] show ?thesis by metis
  qed
  have dem: "linkPrecedence c = Secondary \<and> linkedId c = Some root"
    if "c \<in> set (rows ?s1)" "id_c c \<in> set others" for c
    using that by (auto simp: rows_merged merge_row_prec merge_row_linkedId)
  have tie: "\<forall>c\<in>set rest. createdAt c = createdAt oldest \<longrightarrow> id_c oldest < id_c c"
    if "sorted (map id_c (rows s))"
    using tie_lowest_id[OF fp that] wf by (auto simp: wf_def)
  show ?thesis
    using fp ids m srt keep dem tie unfolding ro merged_def
    by (intro exI[of _ oldest] exI[of _ rest]) auto
qed

theorem oldest_primary_survives_witness:
  "wf merge_store \<and>
   (\<exists>oldest rest.
      fetch_primaries [1, 2] merge_store = oldest # rest \<and>
      merger [1, 2] merge_store =
        Inr (id_c oldest,
             relink (id_c oldest) (map id_c rest) (demote (id_c oldest) (map id_c rest) merge_store)) \<and>
      (\<forall>c\<in>set rest. createdAt oldest \<le> createdAt c))"
proof -
  have p: "[1, 2] = primaryIds (matchingContacts (Some ''a@x.com'') (Some ''222'') merge_store)"
    by code_simp
  have l: "1 < length [1::nat, 2]" by simp
  from oldest_primary_survives[OF wf_merge_store p l] wf_merge_store
  show ?thesis by blast
qed

text \<open>
  The claim as stated fails in \<open>tie_store\<close>: both primaries have \<open>createdAt\<close> 5, and the
  survivor is the contact of id 2, not the one of id 1.
\<close>

theorem tie_not_broken_by_id:
  "wf tie_store \<and>
   map id_c (rows tie_store) = [2, 1] \<and>
   map createdAt (rows tie_store) = [5, 5] \<and>
   map linkPrecedence (rows tie_store) = [Primary, Primary] \<and>
   snd (identify 30 merge_request tie_store) =
     Inr \<lparr>primaryContatctId = 2, emails = [''a@x.com''], phoneNumbers = [''222''],
          secondaryContactIds = [1]\<rparr> \<and>
   map linkPrecedence (rows (fst (identify 30 merge_request tie_store))) = [Primary, Secondary] \<and>
   map linkedId (rows (fst (identify 30 merge_request tie_store))) = [None, Some 2]"
  by code_simp

subsection \<open>C5: the same request again, after a merge\<close>



subsection \<open>C6: the extender\<close>

text \<open>
  Claim C6. The extender inserts one row exactly when the request carries an email that
  no member of the cluster has, or a phone number that no member has; the members are
  the rows that are not deleted and have the root's id or are linked to it. The new row
  is a secondary linked to the root, with the email and the phone number of the
  request (null for a field that was not given). Otherwise the store is unchanged.
\<close>

theorem extender_creates_iff_new:
  "extender now e p root s =
     (if (truthy e \<and> (\<forall>c\<in>set (rows s).
             (id_c c = root \<or> linkedId c = Some root) \<and> deletedAt c = None \<longrightarrow> email c \<noteq> e))
       \<or> (truthy p \<and> (\<forall>c\<in>set (rows s).
             (id_c c = root \<or> linkedId c = Some root) \<and> deletedAt c = None \<longrightarrow> phoneNumber c \<noteq> p))
      then (fetch_cluster root s @
              [\<lparr>id_c = nextId s, email = or_null e, phoneNumber = or_null p,
                linkedId = Some root, linkPrecedence = Secondary, createdAt = now,
                deletedAt = None\<rparr>],
            \<lparr>rows = rows s @
              [\<lparr>id_c = nextId s, email = or_null e, phoneNumber = or_null p,
                linkedId = Some root, linkPrecedence = Secondary, createdAt = now,
                deletedAt = None\<rparr>],
             nextId = Suc (nextId s)\<rparr>)
      else (fetch_cluster root s, s))"
proof -
  have e: "isEmailNew e (fetch_cluster root s) \<longleftrightarrow>
        (truthy e \<and> (\<forall>c\<in>set (rows s).
             (id_c c = root \<or> linkedId c = Some root) \<and> deletedAt c = None \<longrightarrow> email c \<noteq> e))"
    by (auto simp: isEmailNew_iff set_fetch_cluster)
  have p: "isPhoneNew p (fetch_cluster root s) \<longleftrightarrow>
        (truthy p \<and> (\<forall>c\<in>set (rows s).
             (id_c c = root \<or> linkedId c = Some root) \<and> deletedAt c = None \<longrightarrow> phoneNumber c \<noteq> p))"
    by (auto simp: isPhoneNew_iff set_fetch_cluster)
  show ?thesis
    by (simp only: extender_eq e p create_eq new_contact_def snd_conv)
qed

theorem extender_creates_iff_new_witness:
  "snd (extender 20 (Some ''a@x.com'') (Some ''333'') 1 merge_store) =
     \<lparr>rows = rows merge_store @
        [\<lparr>id_c = 4, email = Some ''a@x.com'', phoneNumber = Some ''333'', linkedId = Some 1,
          linkPrecedence = Secondary, createdAt = 20, deletedAt = None\<rparr>],
      nextId = 5\<rparr> \<and>
   snd (extender 20 (Some ''a@x.com'') None 1 merge_store) = merge_store"
  by (simp add: extender_creates_iff_new merge_store_def truthy_def or_null_def)

subsection \<open>C7: the response\<close>

text \<open>
  Claim C7. When the cluster has a member with the root's id, the response carries the
  root as \<open>primaryContatctId\<close>; its emails are the primary's email followed by the emails
  of the other members in the order of the cluster, without empty values, each value
  at its first occurrence only, and likewise its phone numbers; an email or phone number
  of the primary is at index 0; \<open>secondaryContactIds\<close> lists every member but the primary.
  The cluster that the handler passes is in ascending \<open>createdAt\<close> when no row is younger
  than the request.
\<close>

theorem composer_primary_first:
  assumes "find (\<lambda>c. id_c c = root) cluster = Some primary"
  shows "\<exists>r. composer root cluster = Inr r \<and>
           primaryContatctId r = root \<and>
           emails r = first_seen (own (email primary) @
                        concat (map (\<lambda>c. own (email c)) (filter (\<lambda>c. id_c c \<noteq> root) cluster))) \<and>
           phoneNumbers r = first_seen (own (phoneNumber primary) @
                        concat (map (\<lambda>c. own (phoneNumber c))
                                  (filter (\<lambda>c. id_c c \<noteq> root) cluster))) \<and>
           secondaryContactIds r = map id_c (filter (\<lambda>c. id_c c \<noteq> root) cluster) \<and>
           distinct (emails r) \<and> distinct (phoneNumbers r) \<and>
           (\<forall>t. email primary = Some t \<and> t \<noteq> [] \<longrightarrow> emails r ! 0 = t) \<and>
           (\<forall>t. phoneNumber primary = Some t \<and> t \<noteq> [] \<longrightarrow> phoneNumbers r ! 0 = t) \<and>
           (cluster = fst (extender now e p root s) \<and> (\<forall>c\<in>set (rows s). createdAt c \<le> now)
              \<longrightarrow> sorted (map createdAt cluster))"
proof -
  have srt: "sorted (map createdAt cluster)"
    if "cluster = fst (extender now e p root s)" "\<forall>c\<in>set (rows s). createdAt c \<le> now"
  proof -
    from that(2) have "\<forall>c\<in>set (fetch_cluster root s). createdAt c \<le> now"
      by (simp add: set_fetch_cluster)
    from sorted_extender[OF this] that(1) show ?thesis by simp
  qed
  let ?r = "\<lparr>primaryContatctId = root,
             emails = first_seen (own (email primary) @
                        concat (map (\<lambda>c. own (email c)) (filter (\<lambda>c. id_c c \<noteq> root) cluster))),
             phoneNumbers = first_seen (own (phoneNumber primary) @
                        concat (map (\<lambda>c. own (phoneNumber c))
                                  (filter (\<lambda>c. id_c c \<noteq> root) cluster))),
             secondaryContactIds = map id_c (filter (\<lambda>c. id_c c \<noteq> root) cluster)\<rparr>"
  show ?thesis
  proof (intro exI[of _ ?r] conjI)
    show "composer root cluster = Inr ?r" by (rule composer_response[OF assms])
    show "cluster = fst (extender now e p root s) \<and> (\<forall>c\<in>set (rows s). createdAt c \<le> now)
              \<longrightarrow> sorted (map createdAt cluster)"
      using srt by blast
  qed (simp_all add: distinct_first_seen hd_first_seen_own)
qed

theorem composer_primary_first_witness:
  "find (\<lambda>c. id_c c = 1) (fetch_cluster 1 (fst (identify 30 merge_request merge_store)))
     = Some (rows merge_store ! 0) \<and>
   composer 1 (fetch_cluster 1 (fst (identify 30 merge_request merge_store))) =
     Inr \<lparr>primaryContatctId = 1, emails = [''a@x.com'', ''b@x.com''], phoneNumbers = [''222''],
          secondaryContactIds = [2, 3]\<rparr>"
proof -
  have f: "find (\<lambda>c. id_c c = 1) (fetch_cluster 1 (fst (identify 30 merge_request merge_store)))
     = Some (rows merge_store ! 0)"
    by code_simp
  from composer_primary_first[OF f] obtain r where
    r: "composer 1 (fetch_cluster 1 (fst (identify 30 merge_request merge_store))) = Inr r"
      "primaryContatctId r = 1"
      "emails r = first_seen (own (email (rows merge_store ! 0)) @
          concat (map (\<lambda>c. own (email c))
            (filter (\<lambda>c. id_c c \<noteq> 1)
               (fetch_cluster 1 (fst (identify 30 merge_request merge_store))))))"
      "phoneNumbers r = first_seen (own (phoneNumber (rows merge_store ! 0)) @
          concat (map (\<lambda>c. own (phoneNumber c))
            (filter (\<lambda>c. id_c c \<noteq> 1)
               (fetch_cluster 1 (fst (identify 30 merge_request merge_store))))))"
      "secondaryContactIds r = map id_c (filter (\<lambda>c. id_c c \<noteq> 1)
               (fetch_cluster 1 (fst (identify 30 merge_request merge_store))))"
    by blast
  have e: "first_seen (own (email (rows merge_store ! 0)) @
          concat (map (\<lambda>c. own (email c))
            (filter (\<lambda>c. id_c c \<noteq> 1)
               (fetch_cluster 1 (fst (identify 30 merge_request merge_store))))))
           = [''a@x.com'', ''b@x.com'']"
    by code_simp
  have p: "first_seen (own (phoneNumber (rows merge_store ! 0)) @
          concat (map (\<lambda>c. own (phoneNumber c))
            (filter (\<lambda>c. id_c c \<noteq> 1)
               (fetch_cluster 1 (fst (identify 30 merge_request merge_store))))))
           = [''222'']"
    by code_simp
  have i: "map id_c (filter (\<lambda>c. id_c c \<noteq> 1)
               (fetch_cluster 1 (fst (identify 30 merge_request merge_store)))) = [2, 3]"
    by code_simp
  have "r = \<lparr>primaryContatctId = 1, emails = [''a@x.com'', ''b@x.com''],
             phoneNumbers = [''222''], secondaryContactIds = [2, 3]\<rparr>"
    using r(2-5) unfolding e p i by (cases r) simp
  with f r(1) show ?thesis by simp
qed

subsection \<open>C8: soft-deleted contacts and the merge\<close>

text \<open>
  Claim C8. The two reads of the handler leave soft-deleted contacts out, but the writes
  of the merge have no \<open>deletedAt\<close> filter. In \<open>deleted_store\<close> the contact of id 3 is
  soft-deleted and linked to the primary of id 2; the request that merges the primaries
  1 and 2 re-points it to the primary of id 1.
\<close>

theorem soft_deleted_contact_relinked:
  "rows deleted_store ! 2 =
     \<lparr>id_c = 3, email = Some ''z@x.com'', phoneNumber = None, linkedId = Some 2,
      linkPrecedence = Secondary, createdAt = 3, deletedAt = Some 4\<rparr> \<and>
   rows (fst (identify 30 \<lparr>req_email = Some ''a@x.com'', req_phoneNumber = Some ''222''\<rparr>
               deleted_store)) ! 2 =
     \<lparr>id_c = 3, email = Some ''z@x.com'', phoneNumber = None, linkedId = Some 1,
      linkPrecedence = Secondary, createdAt = 3, deletedAt = Some 4\<rparr>"
  by code_simp

subsection \<open>C9: at most two roots\<close>

text \<open>
  Claim C9, amended. Take a store that has the invariants of the data model and confines
  every email and every phone number to one cluster (the empty store for instance), and
  a sequence of requests, with or without a call that throws, in none of which the
  second write of a merge is refused. In the store that the sequence reaches a request
  touches at most two roots: at most one through its email and at most one through its
  phone number.
\<close>

theorem at_most_two_roots:
  assumes "wf s" and "key_confined s" and "\<forall>x\<in>set reqs. fst x \<noteq> RelinkFails"
  shows "length (primaryIds (matchingContacts e p (run reqs s))) \<le> 2 \<and>
         length (primaryIds (matchingContacts e None (run reqs s))) \<le> 1 \<and>
         length (primaryIds (matchingContacts None p (run reqs s))) \<le> 1"
  using roots_bound[OF key_confined_run[OF assms]] by simp

theorem at_most_two_roots_witness:
  "wf empty_store \<and> key_confined empty_store \<and>
   length (primaryIds (matchingContacts (Some ''a@x.com'') (Some ''222'')
      (run [(NoFault, 10, \<lparr>req_email = Some ''a@x.com'', req_phoneNumber = None\<rparr>),
            (CreateFails, 15, \<lparr>req_email = Some ''c@x.com'', req_phoneNumber = None\<rparr>),
            (NoFault, 20, \<lparr>req_email = None, req_phoneNumber = Some ''222''\<rparr>)] empty_store))) \<le> 2"
proof -
  have h: "wf empty_store" by code_simp
  have k: "key_confined empty_store" by code_simp
  have n: "\<forall>x\<in>set [(NoFault, 10, \<lparr>req_email = Some ''a@x.com'', req_phoneNumber = None\<rparr>),
              (CreateFails, 15, \<lparr>req_email = Some ''c@x.com'', req_phoneNumber = None\<rparr>),
              (NoFault, 20, \<lparr>req_email = None, req_phoneNumber = Some ''222''\<rparr>)].
        fst x \<noteq> RelinkFails"
    by simp
  from h k n at_most_two_roots[OF h k n] show ?thesis by blast
qed

text \<open>
  The invariants of the data model alone do not bound the roots: \<open>shared_email_store\<close>
  has them, and there one request touches three roots, two of them through its email.
\<close>

theorem three_roots_in_one_request:
  "wf shared_email_store \<and> one_primary shared_email_store \<and> links_resolve shared_email_store \<and>
   primaryIds (matchingContacts (Some ''a@x.com'') (Some ''333'') (run [] shared_email_store))
     = [1, 2, 3] \<and>
   primaryIds (matchingContacts (Some ''a@x.com'') None (run [] shared_email_store)) = [1, 2]"
  by code_simp

subsection \<open>C10: falsy fields\<close>

text \<open>
  Claim C10. A request whose email and phone number are both missing or empty is
  answered with status 400 and the store is untouched, by the guard of the handler and
  by the schema of the later copy alike. A field that is empty is handled as a missing
  one: the request has the same outcome and leaves the same store as the request without
  the field, and a row that the request inserts has null in that column.
\<close>

theorem falsy_fields:
  "(\<not> truthy (req_email req) \<and> \<not> truthy (req_phoneNumber req) \<longrightarrow>
       identify now req s = (s, Inl BadRequest) \<and>
       identify_tx valid_email f now req s = (s, Inl BadRequest)) \<and>
   (\<not> truthy (req_email req) \<longrightarrow>
       identify now req s = identify now (req\<lparr>req_email := None\<rparr>) s) \<and>
   (\<not> truthy (req_phoneNumber req) \<longrightarrow>
       identify now req s = identify now (req\<lparr>req_phoneNumber := None\<rparr>) s \<and>
       identify_tx valid_email f now req s
         = identify_tx valid_email f now (req\<lparr>req_phoneNumber := None\<rparr>) s) \<and>
   (\<forall>c\<in>set (rows (fst (identify now req s))). id_c c \<notin> id_c ` set (rows s) \<longrightarrow>
       (\<not> truthy (req_email req) \<longrightarrow> email c = None) \<and>
       (\<not> truthy (req_phoneNumber req) \<longrightarrow> phoneNumber c = None))"
proof (intro conjI impI ballI)
  assume "\<not> truthy (req_email req) \<and> \<not> truthy (req_phoneNumber req)"
  then show "identify now req s = (s, Inl BadRequest)" by (simp add: identify_def)
next
  assume "\<not> truthy (req_email req) \<and> \<not> truthy (req_phoneNumber req)"
  then show "identify_tx valid_email f now req s = (s, Inl BadRequest)"
    by (simp add: identify_tx_def identifySchema_def)
next
  assume "\<not> truthy (req_email req)"
  then show "identify now req s = identify now (req\<lparr>req_email := None\<rparr>) s"
    using reconcile_falsy_email[of "req_email req"] by (simp add: identify_def)
next
  assume "\<not> truthy (req_phoneNumber req)"
  then show "identify now req s = identify now (req\<lparr>req_phoneNumber := None\<rparr>) s"
    using reconcile_falsy_phone[of "req_phoneNumber req"] by (simp add: identify_def)
next
  assume a: "\<not> truthy (req_phoneNumber req)"
  have "reconcile_tx f now e (req_phoneNumber req) s = reconcile_tx f now e None s" for e
    using reconcile_tx_falsy_phone[OF a, of f now e s] .
  with a show "identify_tx valid_email f now req s
         = identify_tx valid_email f now (req\<lparr>req_phoneNumber := None\<rparr>) s"
    by (simp add: identify_tx_def identifySchema_def)
next
  fix c
  assume c: "c \<in> set (rows (fst (identify now req s)))" and new: "id_c c \<notin> id_c ` set (rows s)"
  have "email c = or_null (req_email req) \<and> phoneNumber c = or_null (req_phoneNumber req)"
  proof (cases "\<not> truthy (req_email req) \<and> \<not> truthy (req_phoneNumber req)")
    case True
    with c new show ?thesis by (auto simp: identify_def)
  next
    case False
    then have eq: "fst (identify now req s) = fst (reconcile now (req_email req) (req_phoneNumber req) s)"
      by (auto simp: identify_def)
    from reconcile_rows[of now "req_email req" "req_phoneNumber req" s]
    obtain root others extra where
      r: "rows (fst (reconcile now (req_email req) (req_phoneNumber req) s)) =
            map (merge_row root others) (rows s) @ extra"
      and x: "extra = [] \<or> (\<exists>l prec. extra =
            [new_contact now (or_null (req_email req)) (or_null (req_phoneNumber req)) l prec s])"
      by blast
    have "c \<notin> set (map (merge_row root others) (rows s))"
      using new by (auto simp: image_iff)
    with c eq r have "c \<in> set extra" by simp
    with x show ?thesis by (auto simp: new_contact_def)
  qed
  then show "\<not> truthy (req_email req) \<Longrightarrow> email c = None"
    and "\<not> truthy (req_phoneNumber req) \<Longrightarrow> phoneNumber c = None"
    by (simp_all add: or_null_falsy)
qed

theorem falsy_fields_witness:
  "identify 5 \<lparr>req_email = Some [], req_phoneNumber = None\<rparr> merge_store
     = (merge_store, Inl BadRequest) \<and>
   identify_tx (\<lambda>t. t \<noteq> []) NoFault 5 \<lparr>req_email = Some [], req_phoneNumber = Some []\<rparr> merge_store
     = (merge_store, Inl BadRequest) \<and>
   identify 5 \<lparr>req_email = Some [], req_phoneNumber = Some ''222''\<rparr> merge_store
     = identify 5 \<lparr>req_email = None, req_phoneNumber = Some ''222''\<rparr> merge_store"
  using falsy_fields[of "\<lparr>req_email = Some [], req_phoneNumber = None\<rparr>" 5 merge_store]
    falsy_fields[of "\<lparr>req_email = Some [], req_phoneNumber = Some []\<rparr>" 5 merge_store
      "\<lambda>t. t \<noteq> []" NoFault]
    falsy_fields[of "\<lparr>req_email = Some [], req_phoneNumber = Some ''222''\<rparr>" 5 merge_store]
  by (simp add: truthy_def)

end
